theory Spec2Isabelle
  imports Main
begin

section \<open>JavaScript values\<close>

text \<open>
  The chat front end exists in two versions: \<^verbatim>\<open>frontend/src/App.vue\<close>, which builds one
  independent message per thought, tool call and reply (discrete mode), and a second
  version of the page (\<^verbatim>\<open>unnamed/part_001\<close>), the streaming page, which accumulates streamed
  text on the last message (incremental mode).  Both are embedded below, function by
  function.

  An inbound frame is the object that \<^verbatim>\<open>JSON.parse\<close> returns.  Its fields have the types of
  the documented frame shape when they are present (\<^verbatim>\<open>type\<close>, \<^verbatim>\<open>thought\<close>, \<^verbatim>\<open>content\<close>, \<^verbatim>\<open>status\<close>
  strings; \<^verbatim>\<open>tool_calls\<close>, \<^verbatim>\<open>tool_results\<close> arrays of objects); the fields of a tool call and of
  a tool result, and \<^verbatim>\<open>file_paths\<close>, are arbitrary values.  Numbers are integers, and the
  characters of a string are code units below 256.
\<close>

datatype jsval =
    Undefined
  | JNull
  | JBool bool
  | JNum int
  | JStr string
  | JArr "jsval list"
  | JObj "(string \<times> jsval) list"

text \<open>Truthiness, as \<^verbatim>\<open>if (v)\<close>, \<^verbatim>\<open>v && ...\<close> and \<^verbatim>\<open>v || ...\<close> test it.\<close>

fun truthy :: "jsval \<Rightarrow> bool" where
  "truthy Undefined = False"
| "truthy JNull = False"
| "truthy (JBool b) = b"
| "truthy (JNum n) = (n \<noteq> 0)"
| "truthy (JStr s) = (s \<noteq> [])"
| "truthy (JArr _) = True"
| "truthy (JObj _) = True"

text \<open>
  \<^verbatim>\<open>a === b\<close> for two values that come from different frames: primitives are compared by
  value, while two arrays or objects parsed from different frames are never the same
  reference.
\<close>

fun strict_eq :: "jsval \<Rightarrow> jsval \<Rightarrow> bool" where
  "strict_eq Undefined Undefined = True"
| "strict_eq JNull JNull = True"
| "strict_eq (JBool a) (JBool b) = (a = b)"
| "strict_eq (JNum a) (JNum b) = (a = b)"
| "strict_eq (JStr a) (JStr b) = (a = b)"
| "strict_eq _ _ = False"

fun isArray :: "jsval \<Rightarrow> bool" where
  "isArray (JArr _) = True"
| "isArray _ = False"

text \<open>\<^verbatim>\<open>a || b\<close>.\<close>

definition js_or :: "jsval \<Rightarrow> jsval \<Rightarrow> jsval" where
  "js_or a b = (if truthy a then a else b)"

text \<open>
  \<^verbatim>\<open>String.prototype.trim\<close>: the white space and line terminators of ECMAScript among the
  code units below 256 are TAB, LF, VT, FF, CR, SP and NBSP.
\<close>

definition is_ws :: "char \<Rightarrow> bool" where
  "is_ws c = (let n = (of_char c :: nat) in (9 \<le> n \<and> n \<le> 13) \<or> n = 32 \<or> n = 160)"

definition trim :: "string \<Rightarrow> string" where
  "trim s = rev (dropWhile is_ws (rev (dropWhile is_ws s)))"

text \<open>The decimal digits of a number, as a template literal prints an integer.\<close>

definition digit :: "nat \<Rightarrow> char" where
  "digit d = ''0123456789'' ! d"

function show_nat :: "nat \<Rightarrow> string" where
  "show_nat n = (if n < 10 then [digit n] else show_nat (n div 10) @ [digit (n mod 10)])"
  by pat_completeness auto
termination
  by (relation "measure (\<lambda>n. n)") auto

declare show_nat.simps [simp del]

datatype js_error = SyntaxError | TypeError | InvalidStateError

text \<open>How a handler ends: it returns, or an exception leaves it.\<close>

datatype outcome = Returned | Threw js_error

section \<open>The connection\<close>

datatype ready_state = CONNECTING | OPEN | CLOSING | CLOSED

text \<open>The one outbound frame shape, \<^verbatim>\<open>JSON.stringify({ message: content })\<close>.\<close>

datatype outbound = Message_frame string

record websocket =
  readyState :: ready_state
  sent :: "outbound list"

text \<open>
  \<^verbatim>\<open>WebSocket.send\<close>: throws InvalidStateError while the socket is connecting, transmits
  when it is open, and drops the data silently when it is closing or closed.
\<close>

definition ws_send :: "websocket \<Rightarrow> outbound \<Rightarrow> js_error + websocket" where
  "ws_send w d =
     (case readyState w of
        CONNECTING \<Rightarrow> Inl InvalidStateError
      | OPEN \<Rightarrow> Inr (w\<lparr>sent := sent w @ [d]\<rparr>)
      | CLOSING \<Rightarrow> Inr w
      | CLOSED \<Rightarrow> Inr w)"

datatype callback = InitWebSocket

text \<open>A pending \<^verbatim>\<open>setTimeout(callback, delay)\<close>, the delay in milliseconds.\<close>

record timer =
  callback :: callback
  delay :: nat

section \<open>Frames\<close>

record tool_call =
  tc_id :: jsval
  tc_function_name :: jsval
  tc_args :: jsval

record tool_result =
  tr_call_id :: jsval
  tr_result :: jsval
  tr_is_error :: jsval
  tr_file_paths :: jsval

record frame =
  f_type :: "string option"
  f_thought :: "string option"
  f_content :: "string option"
  f_status :: "string option"
  f_tool_calls :: "tool_call list option"
  f_tool_results :: "tool_result list option"
  f_file_paths :: jsval

text \<open>
  \<^verbatim>\<open>event.data\<close>: a text that \<^verbatim>\<open>JSON.parse\<close> rejects, or the frame it parses to.
\<close>

datatype ws_data = Invalid string | Valid frame

definition JSON_parse :: "ws_data \<Rightarrow> js_error + frame" where
  "JSON_parse d = (case d of Invalid _ \<Rightarrow> Inl SyntaxError | Valid f \<Rightarrow> Inr f)"

text \<open>The frame \<^verbatim>\<open>{}\<close>, to which the examples add fields.\<close>

definition no_fields :: frame where
  "no_fields = \<lparr>f_type = None, f_thought = None, f_content = None, f_status = None,
                f_tool_calls = None, f_tool_results = None, f_file_paths = Undefined\<rparr>"

section \<open>The state of the page\<close>

datatype console_call =
    Log_connected
  | Log_closed_retry
  | Error_parse_failed js_error ws_data
  | Error_socket

text \<open>
  The reactive variables and the globals of the page's script.  Both versions have the same
  ones, with their own message objects \<open>'m\<close>; \<^verbatim>\<open>messageIdCounter\<close> exists in App.vue only.
  \<open>console\<close> lists the calls of \<^verbatim>\<open>console.log\<close> and \<^verbatim>\<open>console.error\<close>, \<open>timers\<close> the pending
  \<^verbatim>\<open>setTimeout\<close> calls, and \<open>sockets\<close> every \<^verbatim>\<open>WebSocket\<close> made so far, the variable \<^verbatim>\<open>socket\<close>
  being the last of them.
\<close>

record 'm page =
  messages :: "'m list"
  loading :: bool
  wsConnected :: bool
  userInput :: string
  messageIdCounter :: nat
  console :: "console_call list"
  timers :: "timer list"
  sockets :: "websocket list"

definition initial :: "'m page" where
  "initial = \<lparr>messages = [], loading = False, wsConnected = False, userInput = [],
              messageIdCounter = 0, console = [], timers = [], sockets = []\<rparr>"

text \<open>\<^verbatim>\<open>socket.send(d)\<close> on the variable \<^verbatim>\<open>socket\<close>, which is \<^verbatim>\<open>null\<close> before the first socket is made.\<close>

definition socket_send :: "'m page \<Rightarrow> outbound \<Rightarrow> js_error + 'm page" where
  "socket_send s d =
     (if sockets s = [] then Inl TypeError
      else case ws_send (last (sockets s)) d of
             Inl e \<Rightarrow> Inl e
           | Inr w \<Rightarrow> Inr (s\<lparr>sockets := butlast (sockets s) @ [w]\<rparr>))"

definition initWebSocket :: "'m page \<Rightarrow> 'm page" where
  "initWebSocket s = s\<lparr>sockets := sockets s @ [\<lparr>readyState = CONNECTING, sent = []\<rparr>]\<rparr>"

section \<open>Discrete mode: App.vue\<close>

datatype msg_type = User | Thought | Tool_request | Assistant | File_download

text \<open>
  A message object of \<^verbatim>\<open>messages.value\<close>.  A field that the object does not have is
  \<open>None\<close> or \<open>Undefined\<close>.
\<close>

record message =
  msg_id :: string
  msg_type :: msg_type
  content :: "string option"
  call_id :: jsval
  function_name :: jsval
  args :: jsval
  result :: jsval
  file_paths :: jsval
  is_error :: jsval
  collapsed :: "bool option"

type_synonym session = "message page"

text \<open>
  The identifier \<^verbatim>\<open>`msg_${Date.now()}_${messageIdCounter++}`\<close>.  Every reading of the clock
  stands beside one increment of the counter, so the clock is a function \<open>now\<close> of the
  counter value at which it is read.
\<close>

definition mk_id :: "string \<Rightarrow> (nat \<Rightarrow> nat) \<Rightarrow> nat \<Rightarrow> string" where
  "mk_id prefix now n = prefix @ ''_'' @ show_nat (now n) @ ''_'' @ show_nat n"

definition createUserMessage :: "(nat \<Rightarrow> nat) \<Rightarrow> session \<Rightarrow> string \<Rightarrow> message \<times> session" where
  "createUserMessage now s c =
     (\<lparr>msg_id = mk_id ''msg'' now (messageIdCounter s), msg_type = User, content = Some c,
       call_id = Undefined, function_name = Undefined, args = Undefined, result = Undefined,
       file_paths = Undefined, is_error = Undefined, collapsed = Some False\<rparr>,
      s\<lparr>messageIdCounter := Suc (messageIdCounter s)\<rparr>)"

definition createThoughtMessage :: "(nat \<Rightarrow> nat) \<Rightarrow> session \<Rightarrow> string \<Rightarrow> message \<times> session" where
  "createThoughtMessage now s t =
     (\<lparr>msg_id = mk_id ''msg'' now (messageIdCounter s), msg_type = Thought, content = Some t,
       call_id = Undefined, function_name = Undefined, args = Undefined, result = Undefined,
       file_paths = Undefined, is_error = Undefined, collapsed = Some False\<rparr>,
      s\<lparr>messageIdCounter := Suc (messageIdCounter s)\<rparr>)"

definition createToolRequestMessage ::
  "(nat \<Rightarrow> nat) \<Rightarrow> session \<Rightarrow> tool_call \<Rightarrow> message \<times> session" where
  "createToolRequestMessage now s toolCall =
     (\<lparr>msg_id = mk_id ''msg'' now (messageIdCounter s), msg_type = Tool_request, content = None,
       call_id = tc_id toolCall, function_name = tc_function_name toolCall,
       args = tc_args toolCall, result = JStr [], file_paths = JArr [],
       is_error = JBool False, collapsed = Some False\<rparr>,
      s\<lparr>messageIdCounter := Suc (messageIdCounter s)\<rparr>)"

definition createAssistantMessage ::
  "(nat \<Rightarrow> nat) \<Rightarrow> session \<Rightarrow> string \<Rightarrow> message \<times> session" where
  "createAssistantMessage now s c =
     (\<lparr>msg_id = mk_id ''msg'' now (messageIdCounter s), msg_type = Assistant, content = Some c,
       call_id = Undefined, function_name = Undefined, args = Undefined, result = Undefined,
       file_paths = Undefined, is_error = Undefined, collapsed = Some False\<rparr>,
      s\<lparr>messageIdCounter := Suc (messageIdCounter s)\<rparr>)"

text \<open>\<^verbatim>\<open>messages.value.push(m)\<close>.\<close>

definition push :: "message \<times> session \<Rightarrow> session" where
  "push p = (case p of (m, s) \<Rightarrow> s\<lparr>messages := messages s @ [m]\<rparr>)"

text \<open>
  \<^verbatim>\<open>const msg = xs.find(p); if (msg) { ... }\<close> with an update of the found object in
  place: the first element that satisfies \<open>p\<close> is changed, where it stands.
\<close>

fun update_found :: "('a \<Rightarrow> bool) \<Rightarrow> ('a \<Rightarrow> 'a) \<Rightarrow> 'a list \<Rightarrow> 'a list" where
  "update_found p u [] = []"
| "update_found p u (x # xs) = (if p x then u x # xs else x # update_found p u xs)"

text \<open>The truth value of \<^verbatim>\<open>msg.collapsed\<close>; a missing property is \<^verbatim>\<open>undefined\<close>, which is falsy.\<close>

definition is_collapsed :: "message \<Rightarrow> bool" where
  "is_collapsed msg = (case collapsed msg of None \<Rightarrow> False | Some b \<Rightarrow> b)"

definition toggleCollapse :: "session \<Rightarrow> string \<Rightarrow> session" where
  "toggleCollapse s msgId =
     s\<lparr>messages := update_found (\<lambda>m. msg_id m = msgId)
          (\<lambda>msg. msg\<lparr>collapsed := Some (\<not> is_collapsed msg)\<rparr>) (messages s)\<rparr>"

text \<open>
  The template renders each message by its type, in one of five blocks.  The blocks of a
  thought, of a tool request and of an assistant message have a header with
  \<^verbatim>\<open>@click="toggleCollapse(msg.id)"\<close>; the blocks of a user message and of a file message have
  none.  These three headers are the only callers of \<^verbatim>\<open>toggleCollapse\<close>.
\<close>

definition has_header :: "message \<Rightarrow> bool" where
  "has_header msg =
     (msg_type msg = Thought \<or> msg_type msg = Tool_request \<or> msg_type msg = Assistant)"

text \<open>A click on the header of the \<open>k\<close>-th message of the transcript.\<close>

definition click_header :: "session \<Rightarrow> nat \<Rightarrow> session" where
  "click_header s k =
     (if k < length (messages s) \<and> has_header (messages s ! k)
      then toggleCollapse s (msg_id (messages s ! k))
      else s)"

text \<open>The body of one \<^verbatim>\<open>forEach\<close> step over \<^verbatim>\<open>data.tool_results\<close>.\<close>

definition store_result :: "tool_result \<Rightarrow> message \<Rightarrow> message" where
  "store_result toolResult toolMsg =
     (let m1 = toolMsg\<lparr>result := tr_result toolResult,
                        is_error := js_or (tr_is_error toolResult) (JBool False)\<rparr>
      in if truthy (tr_file_paths toolResult) \<and> isArray (tr_file_paths toolResult)
         then m1\<lparr>file_paths := tr_file_paths toolResult\<rparr> else m1)"

definition tool_executed_step :: "session \<Rightarrow> tool_result \<Rightarrow> session" where
  "tool_executed_step s toolResult =
     s\<lparr>messages := update_found
          (\<lambda>m. msg_type m = Tool_request \<and> strict_eq (call_id m) (tr_call_id toolResult))
          (store_result toolResult) (messages s)\<rparr>"

text \<open>
  The body of the \<^verbatim>\<open>try\<close> block of \<^verbatim>\<open>socket.onmessage\<close>, with the session as it is when the
  block is left.  \<^verbatim>\<open>scrollToBottom\<close> only moves the view and is left out.
\<close>

definition onmessage_try :: "(nat \<Rightarrow> nat) \<Rightarrow> session \<Rightarrow> ws_data \<Rightarrow> outcome \<times> session" where
  "onmessage_try now s d =
     (case JSON_parse d of
        Inl e \<Rightarrow> (Threw e, s)
      | Inr data \<Rightarrow>
          if f_type data = Some ''done'' then (Returned, s\<lparr>loading := False\<rparr>)
          else if f_type data = Some ''file_download'' \<and> truthy (f_file_paths data) then
            (Returned,
             push (\<lparr>msg_id = mk_id ''file'' now (messageIdCounter s), msg_type = File_download,
                    content = None, call_id = Undefined, function_name = Undefined,
                    args = Undefined, result = Undefined, file_paths = f_file_paths data,
                    is_error = Undefined, collapsed = None\<rparr>,
                   s\<lparr>messageIdCounter := Suc (messageIdCounter s)\<rparr>))
          else
            let s1 = (case f_thought data of
                        None \<Rightarrow> s
                      | Some t \<Rightarrow> if t \<noteq> [] \<and> trim t \<noteq> []
                                  then push (createThoughtMessage now s t) else s);
                s2 = (if f_status data = Some ''tool_calling'' then
                        (case f_tool_calls data of
                           None \<Rightarrow> s1
                         | Some tcs \<Rightarrow>
                             if length tcs > 0
                             then foldl (\<lambda>st toolCall. push (createToolRequestMessage now st toolCall))
                                    s1 tcs
                             else s1)
                      else s1);
                s3 = (if f_status data = Some ''tool_executed'' then
                        (case f_tool_results data of
                           None \<Rightarrow> s2
                         | Some trs \<Rightarrow>
                             if length trs > 0 then foldl tool_executed_step s2 trs else s2)
                      else s2);
                s4 = (case f_content data of
                        None \<Rightarrow> s3
                      | Some c \<Rightarrow> if c \<noteq> [] \<and> trim c \<noteq> []
                                  then push (createAssistantMessage now s3 c) else s3)
            in (Returned, s4))"

text \<open>\<^verbatim>\<open>socket.onmessage\<close>: the \<^verbatim>\<open>catch\<close> logs the exception and the handler returns.\<close>

definition onmessage :: "(nat \<Rightarrow> nat) \<Rightarrow> session \<Rightarrow> ws_data \<Rightarrow> session" where
  "onmessage now s d =
     (case onmessage_try now s d of
        (Returned, s') \<Rightarrow> s'
      | (Threw e, s') \<Rightarrow> s'\<lparr>console := console s' @ [Error_parse_failed e d]\<rparr>)"

definition onopen :: "session \<Rightarrow> session" where
  "onopen s = s\<lparr>wsConnected := True, console := console s @ [Log_connected]\<rparr>"

definition onclose :: "session \<Rightarrow> session" where
  "onclose s =
     s\<lparr>wsConnected := False, console := console s @ [Log_closed_retry],
       timers := timers s @ [\<lparr>callback = InitWebSocket, delay = 3000\<rparr>]\<rparr>"

definition onerror :: "session \<Rightarrow> session" where
  "onerror s = s\<lparr>console := console s @ [Error_socket], wsConnected := False\<rparr>"

definition sendMessage :: "(nat \<Rightarrow> nat) \<Rightarrow> session \<Rightarrow> outcome \<times> session" where
  "sendMessage now s =
     (if userInput s = [] \<or> loading s then (Returned, s)
      else
        let content = userInput s;
            s1 = push (createUserMessage now s content)
        in case socket_send s1 (Message_frame content) of
             Inl e \<Rightarrow> (Threw e, s1)
           | Inr s2 \<Rightarrow> (Returned, s2\<lparr>userInput := [], loading := True\<rparr>))"

section \<open>Incremental mode: the streaming page\<close>

datatype role = User_role | Assistant_role

text \<open>
  An element of \<^verbatim>\<open>lastMsg.tool_calls\<close>: the tool call object of the frame, which later gets a
  \<^verbatim>\<open>result\<close> property.
\<close>

record tool = tool_call +
  tl_result :: jsval

definition as_tool :: "tool_call \<Rightarrow> tool" where
  "as_tool c = \<lparr>tc_id = tc_id c, tc_function_name = tc_function_name c, tc_args = tc_args c,
               tl_result = Undefined\<rparr>"

text \<open>
  A message object of the streaming page: \<^verbatim>\<open>{ role: 'user', content }\<close> has neither \<^verbatim>\<open>thought\<close> nor
  \<^verbatim>\<open>tool_calls\<close>.
\<close>

record turn =
  role :: role
  t_content :: string
  thought :: "string option"
  tool_calls :: "tool list option"

text \<open>An update of the object \<^verbatim>\<open>lastMsg\<close>, the last element of the array.\<close>

definition on_last :: "('a \<Rightarrow> 'a) \<Rightarrow> 'a list \<Rightarrow> 'a list" where
  "on_last f xs = (if xs = [] then [] else butlast xs @ [f (last xs)])"

text \<open>\<^verbatim>\<open>x += t\<close> on a property that may be missing: \<^verbatim>\<open>undefined + t\<close> is the text "undefined" and \<^verbatim>\<open>t\<close>.\<close>

definition plus_assign :: "string option \<Rightarrow> string \<Rightarrow> string option" where
  "plus_assign x t = (case x of None \<Rightarrow> Some (''undefined'' @ t) | Some y \<Rightarrow> Some (y @ t))"

definition find_tool_step :: "tool list \<Rightarrow> tool_result \<Rightarrow> tool list" where
  "find_tool_step ts res =
     update_found (\<lambda>t. strict_eq (tc_id t) (tr_call_id res))
       (\<lambda>tool. tool\<lparr>tl_result := tr_result res\<rparr>) ts"

text \<open>
  \<^verbatim>\<open>socket.onmessage\<close> of the streaming page.  It has no \<^verbatim>\<open>try\<close>: an exception leaves the handler,
  with the page as it is at that moment.
\<close>

definition onmessage_inc :: "turn page \<Rightarrow> ws_data \<Rightarrow> outcome \<times> turn page" where
  "onmessage_inc s d =
     (case JSON_parse d of
        Inl e \<Rightarrow> (Threw e, s)
      | Inr data \<Rightarrow>
          if f_type data = Some ''done'' then (Returned, s\<lparr>loading := False\<rparr>)
          else
            let s1 = (if messages s = [] \<or> role (last (messages s)) = User_role
                      then s\<lparr>messages := messages s @
                             [\<lparr>role = Assistant_role, t_content = [], thought = Some [],
                               tool_calls = Some []\<rparr>]\<rparr>
                      else s);
                s2 = (case f_thought data of
                        None \<Rightarrow> s1
                      | Some t \<Rightarrow>
                          if t \<noteq> []
                          then s1\<lparr>messages :=
                                 on_last (\<lambda>m. m\<lparr>thought := plus_assign (thought m) t\<rparr>) (messages s1)\<rparr>
                          else s1);
                s3 = (case f_content data of
                        None \<Rightarrow> s2
                      | Some c \<Rightarrow>
                          if c \<noteq> []
                          then s2\<lparr>messages :=
                                 on_last (\<lambda>m. m\<lparr>t_content := t_content m @ c\<rparr>) (messages s2)\<rparr>
                          else s2);
                r4 = (if f_status data = Some ''tool_calling'' then
                        (case (tool_calls (last (messages s3)), f_tool_calls data) of
                           (Some tools, Some tcs) \<Rightarrow>
                             (Returned,
                              s3\<lparr>messages :=
                                   on_last (\<lambda>m. m\<lparr>tool_calls := Some (tools @ map as_tool tcs)\<rparr>)
                                     (messages s3)\<rparr>)
                         | _ \<Rightarrow> (Threw TypeError, s3))
                      else (Returned, s3))
            in (case r4 of
                  (Threw e, s4) \<Rightarrow> (Threw e, s4)
                | (Returned, s4) \<Rightarrow>
                    if f_status data = Some ''tool_executed'' then
                      (case (tool_calls (last (messages s4)), f_tool_results data) of
                         (Some tools, Some trs) \<Rightarrow>
                           (Returned,
                            s4\<lparr>messages :=
                                 on_last (\<lambda>m. m\<lparr>tool_calls := Some (foldl find_tool_step tools trs)\<rparr>)
                                   (messages s4)\<rparr>)
                       | _ \<Rightarrow> (Threw TypeError, s4))
                    else (Returned, s4)))"

definition onopen_inc :: "turn page \<Rightarrow> turn page" where
  "onopen_inc s = s\<lparr>wsConnected := True, console := console s @ [Log_connected]\<rparr>"

definition onclose_inc :: "turn page \<Rightarrow> turn page" where
  "onclose_inc s =
     s\<lparr>wsConnected := False,
       timers := timers s @ [\<lparr>callback = InitWebSocket, delay = 3000\<rparr>]\<rparr>"

definition sendMessage_inc :: "turn page \<Rightarrow> outcome \<times> turn page" where
  "sendMessage_inc s =
     (if userInput s = [] \<or> loading s then (Returned, s)
      else
        let content = userInput s;
            s1 = s\<lparr>messages := messages s @
                   [\<lparr>role = User_role, t_content = content, thought = None, tool_calls = None\<rparr>]\<rparr>
        in case socket_send s1 (Message_frame content) of
             Inl e \<Rightarrow> (Threw e, s1)
           | Inr s2 \<Rightarrow> (Returned, s2\<lparr>userInput := [], loading := True\<rparr>))"

section \<open>The browser\<close>

text \<open>
  What the browser does with the page's handlers.  An event of the \<open>k\<close>-th socket: the
  browser sets the socket's \<^verbatim>\<open>readyState\<close> and calls the handler that \<^verbatim>\<open>initWebSocket\<close> has put on
  the socket.  An exception that leaves a handler is reported by the browser and ends that
  call only.
\<close>

datatype ws_event = Ev_open | Ev_message ws_data | Ev_close | Ev_error

definition set_readyState :: "nat \<Rightarrow> ready_state \<Rightarrow> 'm page \<Rightarrow> 'm page" where
  "set_readyState k r s =
     (if k < length (sockets s)
      then s\<lparr>sockets := (sockets s)[k := (sockets s ! k)\<lparr>readyState := r\<rparr>]\<rparr>
      else s)"

definition dispatch :: "(nat \<Rightarrow> nat) \<Rightarrow> nat \<Rightarrow> ws_event \<Rightarrow> session \<Rightarrow> session" where
  "dispatch now k ev s =
     (if k < length (sockets s) then
        (case ev of
           Ev_open \<Rightarrow> onopen (set_readyState k OPEN s)
         | Ev_message d \<Rightarrow> onmessage now s d
         | Ev_close \<Rightarrow> onclose (set_readyState k CLOSED s)
         | Ev_error \<Rightarrow> onerror s)
      else s)"

text \<open>The streaming page sets no \<^verbatim>\<open>onerror\<close> handler.\<close>

definition dispatch_inc :: "nat \<Rightarrow> ws_event \<Rightarrow> turn page \<Rightarrow> turn page" where
  "dispatch_inc k ev s =
     (if k < length (sockets s) then
        (case ev of
           Ev_open \<Rightarrow> onopen_inc (set_readyState k OPEN s)
         | Ev_message d \<Rightarrow> snd (onmessage_inc s d)
         | Ev_close \<Rightarrow> onclose_inc (set_readyState k CLOSED s)
         | Ev_error \<Rightarrow> s)
      else s)"

text \<open>The oldest pending timer fires: the browser calls its callback.\<close>

definition timeout_fires :: "'m page \<Rightarrow> 'm page" where
  "timeout_fires s =
     (case timers s of
        [] \<Rightarrow> s
      | t # ts \<Rightarrow> (case callback t of InitWebSocket \<Rightarrow> initWebSocket (s\<lparr>timers := ts\<rparr>)))"

text \<open>
  The socket in use closes and the timer that \<^verbatim>\<open>onclose\<close> has set fires, \<open>n\<close> times over.
\<close>

fun reconnects :: "(nat \<Rightarrow> nat) \<Rightarrow> nat \<Rightarrow> session \<Rightarrow> session" where
  "reconnects now 0 s = s"
| "reconnects now (Suc n) s =
     reconnects now n (timeout_fires (dispatch now (length (sockets s) - 1) Ev_close s))"

fun reconnects_inc :: "nat \<Rightarrow> turn page \<Rightarrow> turn page" where
  "reconnects_inc 0 s = s"
| "reconnects_inc (Suc n) s =
     reconnects_inc n (timeout_fires (dispatch_inc (length (sockets s) - 1) Ev_close s))"

text \<open>The user types \<open>txt\<close> into the input box and sends it.\<close>

definition say :: "(nat \<Rightarrow> nat) \<Rightarrow> string \<Rightarrow> session \<Rightarrow> session" where
  "say now txt s = snd (sendMessage now (s\<lparr>userInput := txt\<rparr>))"

definition say_inc :: "string \<Rightarrow> turn page \<Rightarrow> turn page" where
  "say_inc txt s = snd (sendMessage_inc (s\<lparr>userInput := txt\<rparr>))"

section \<open>The effect of each field of a frame\<close>

text \<open>A text with at least one character that is not white space.\<close>

definition has_text :: "string option \<Rightarrow> bool" where
  "has_text x = (case x of None \<Rightarrow> False | Some t \<Rightarrow> \<exists>c\<in>set t. \<not> is_ws c)"

text \<open>
  The two checks of \<^verbatim>\<open>data.type\<close> at the head of the discrete handler, each of which ends
  with \<^verbatim>\<open>return\<close>.
\<close>

definition returns_early :: "frame \<Rightarrow> bool" where
  "returns_early data =
     (f_type data = Some ''done'' \<or>
      (f_type data = Some ''file_download'' \<and> truthy (f_file_paths data)))"

text \<open>
  What one field of a frame does to the page in discrete mode, as a function of that field
  alone (and of \<^verbatim>\<open>status\<close> for the two tool fields).
\<close>

definition thought_effect :: "(nat \<Rightarrow> nat) \<Rightarrow> string option \<Rightarrow> session \<Rightarrow> session" where
  "thought_effect now x s =
     (if has_text x then push (createThoughtMessage now s (the x)) else s)"

definition tool_calling_effect ::
  "(nat \<Rightarrow> nat) \<Rightarrow> string option \<Rightarrow> tool_call list option \<Rightarrow> session \<Rightarrow> session" where
  "tool_calling_effect now status x s =
     (case x of
        Some tcs \<Rightarrow>
          if status = Some ''tool_calling''
          then foldl (\<lambda>st toolCall. push (createToolRequestMessage now st toolCall)) s tcs
          else s
      | None \<Rightarrow> s)"

definition tool_executed_effect ::
  "string option \<Rightarrow> tool_result list option \<Rightarrow> session \<Rightarrow> session" where
  "tool_executed_effect status x s =
     (case x of
        Some trs \<Rightarrow> if status = Some ''tool_executed'' then foldl tool_executed_step s trs else s
      | None \<Rightarrow> s)"

definition content_effect :: "(nat \<Rightarrow> nat) \<Rightarrow> string option \<Rightarrow> session \<Rightarrow> session" where
  "content_effect now x s =
     (if has_text x then push (createAssistantMessage now s (the x)) else s)"

text \<open>The tool request messages that \<^verbatim>\<open>data.tool_calls.forEach\<close> pushes, the counter starting at \<open>n\<close>.\<close>

fun tool_turns :: "(nat \<Rightarrow> nat) \<Rightarrow> nat \<Rightarrow> tool_call list \<Rightarrow> message list" where
  "tool_turns now n [] = []"
| "tool_turns now n (c # cs) =
     \<lparr>msg_id = mk_id ''msg'' now n, msg_type = Tool_request, content = None,
      call_id = tc_id c, function_name = tc_function_name c, args = tc_args c,
      result = JStr [], file_paths = JArr [], is_error = JBool False,
      collapsed = Some False\<rparr> # tool_turns now (Suc n) cs"

text \<open>The test of \<^verbatim>\<open>messages.value.find\<close> in the tool result handler.\<close>

definition answers :: "tool_result \<Rightarrow> message \<Rightarrow> bool" where
  "answers toolResult m = (msg_type m = Tool_request \<and> strict_eq (call_id m) (tr_call_id toolResult))"

text \<open>The messages after the tool results \<open>trs\<close> have been stored, one after the other.\<close>

definition store_results :: "message list \<Rightarrow> tool_result list \<Rightarrow> message list" where
  "store_results ms trs =
     foldl (\<lambda>xs r. update_found (answers r) (store_result r) xs) ms trs"

text \<open>
  The thought or assistant message that a text \<open>x\<close> gives rise to, if any, the counter being
  \<open>n\<close>.
\<close>

definition text_turn :: "msg_type \<Rightarrow> (nat \<Rightarrow> nat) \<Rightarrow> nat \<Rightarrow> string option \<Rightarrow> message list" where
  "text_turn ty now n x =
     (if has_text x
      then [\<lparr>msg_id = mk_id ''msg'' now n, msg_type = ty, content = x, call_id = Undefined,
             function_name = Undefined, args = Undefined, result = Undefined,
             file_paths = Undefined, is_error = Undefined, collapsed = Some False\<rparr>]
      else [])"

text \<open>The tool calls and the tool results of a frame that its \<^verbatim>\<open>status\<close> lets through.\<close>

definition requested :: "frame \<Rightarrow> tool_call list" where
  "requested data =
     (case f_tool_calls data of
        Some tcs \<Rightarrow> if f_status data = Some ''tool_calling'' then tcs else []
      | None \<Rightarrow> [])"

definition resolved :: "frame \<Rightarrow> tool_result list" where
  "resolved data =
     (case f_tool_results data of
        Some trs \<Rightarrow> if f_status data = Some ''tool_executed'' then trs else []
      | None \<Rightarrow> [])"

text \<open>The tool results that a message of the socket brings.\<close>

definition carried :: "ws_data \<Rightarrow> tool_result list" where
  "carried d = (case d of Invalid _ \<Rightarrow> [] | Valid data \<Rightarrow> resolved data)"

text \<open>Two message objects that differ at most in what a tool result sets.\<close>

definition same_but_result :: "message \<Rightarrow> message \<Rightarrow> bool" where
  "same_but_result a b =
     (b = a\<lparr>result := result b, is_error := is_error b, file_paths := file_paths b\<rparr>)"

subsection \<open>Incremental mode\<close>

text \<open>The object that the handler pushes when there is no agent message to continue.\<close>

definition fresh_turn :: turn where
  "fresh_turn = \<lparr>role = Assistant_role, t_content = [], thought = Some [], tool_calls = Some []\<rparr>"

text \<open>
  \<^verbatim>\<open>!lastMsg || lastMsg.role === 'user'\<close>; then the messages that a frame leaves alone and the
  message \<^verbatim>\<open>lastMsg\<close> that it works on.
\<close>

definition needs_turn :: "turn list \<Rightarrow> bool" where
  "needs_turn ms = (ms = [] \<or> role (last ms) = User_role)"

definition closed_turns :: "turn list \<Rightarrow> turn list" where
  "closed_turns ms = (if needs_turn ms then ms else butlast ms)"

definition open_turn :: "turn list \<Rightarrow> turn" where
  "open_turn ms = (if needs_turn ms then fresh_turn else last ms)"

text \<open>The text that a field adds: \<^verbatim>\<open>if (data.thought) lastMsg.thought += data.thought\<close>.\<close>

definition delta :: "string option \<Rightarrow> string" where
  "delta x = (case x of None \<Rightarrow> [] | Some t \<Rightarrow> t)"

definition add_thought :: "string option \<Rightarrow> turn \<Rightarrow> turn" where
  "add_thought x m = (if delta x = [] then m else m\<lparr>thought := plus_assign (thought m) (delta x)\<rparr>)"

definition add_content :: "string option \<Rightarrow> turn \<Rightarrow> turn" where
  "add_content x m = m\<lparr>t_content := t_content m @ delta x\<rparr>"

text \<open>
  The page after the frames \<open>fs\<close> have arrived, one after the other.  An exception that
  leaves the handler ends that call only: the next frame finds the page as the call left it.
\<close>

definition deliver_inc :: "turn page \<Rightarrow> frame list \<Rightarrow> turn page" where
  "deliver_inc s fs = foldl (\<lambda>st data. snd (onmessage_inc st (Valid data))) s fs"

text \<open>A frame of streamed text: neither the end of the reply nor a tool frame.\<close>

definition is_delta :: "frame \<Rightarrow> bool" where
  "is_delta data =
     (f_type data \<noteq> Some ''done'' \<and> f_status data \<noteq> Some ''tool_calling'' \<and>
      f_status data \<noteq> Some ''tool_executed'')"

definition content_delta :: "string \<Rightarrow> frame" where
  "content_delta c = no_fields\<lparr>f_content := Some c\<rparr>"

section \<open>The identifiers of the messages\<close>

text \<open>The number that decimal digits stand for.\<close>

definition read_nat :: "string \<Rightarrow> nat" where
  "read_nat ds = foldl (\<lambda>a c. 10 * a + (of_char c - 48)) 0 ds"

text \<open>The last number of an identifier, which is the value of the counter that it was made with.\<close>

definition serial :: "string \<Rightarrow> nat" where
  "serial i = read_nat (rev (takeWhile (\<lambda>c. c \<noteq> CHR ''_'') (rev i)))"

text \<open>
  What can happen to the page: it is mounted (\<^verbatim>\<open>onMounted(initWebSocket)\<close>), an event of a
  socket, a timer, and what the user does: typing, sending, and clicking the header of a
  message.
\<close>

datatype action =
    Mount
  | Socket nat ws_event
  | Timeout
  | Type string
  | Send
  | Click nat

fun perform :: "(nat \<Rightarrow> nat) \<Rightarrow> session \<Rightarrow> action \<Rightarrow> session" where
  "perform now s Mount = initWebSocket s"
| "perform now s (Socket k ev) = dispatch now k ev s"
| "perform now s Timeout = timeout_fires s"
| "perform now s (Type txt) = s\<lparr>userInput := txt\<rparr>"
| "perform now s Send = snd (sendMessage now s)"
| "perform now s (Click k) = click_header s k"

section \<open>Example clock, frames and pages\<close>

text \<open>A clock that advances by one millisecond at each reading.\<close>

definition demo_now :: "nat \<Rightarrow> nat" where
  "demo_now n = 1700000000000 + n"

definition mixer_call :: tool_call where
  "mixer_call = \<lparr>tc_id = JStr ''t1'', tc_function_name = JStr ''mixer'', tc_args = JObj []\<rparr>"

text \<open>The page after a frame that asks for one tool call, \<^verbatim>\<open>t1\<close>.\<close>

definition asked :: session where
  "asked = onmessage demo_now initial
     (Valid (no_fields\<lparr>f_status := Some ''tool_calling'', f_tool_calls := Some [mixer_call]\<rparr>))"

text \<open>A frame that carries tool results and nothing else.\<close>

definition result_frame :: "tool_result list \<Rightarrow> frame" where
  "result_frame trs = no_fields\<lparr>f_status := Some ''tool_executed'', f_tool_results := Some trs\<rparr>"

definition answer :: "string \<Rightarrow> string \<Rightarrow> tool_result" where
  "answer c r = \<lparr>tr_call_id = JStr c, tr_result = JStr r, tr_is_error = JBool False,
                 tr_file_paths = Undefined\<rparr>"

text \<open>The page once its first socket is open, in each version.\<close>

definition online :: session where
  "online = dispatch demo_now 0 Ev_open (initWebSocket initial)"

definition online_inc :: "turn page" where
  "online_inc = dispatch_inc 0 Ev_open (initWebSocket initial)"

text \<open>The socket has closed, and the user has typed "hello".\<close>

definition offline :: session where
  "offline = (dispatch demo_now 0 Ev_close online)\<lparr>userInput := ''hello''\<rparr>"

definition offline_inc :: "turn page" where
  "offline_inc = (dispatch_inc 0 Ev_close online_inc)\<lparr>userInput := ''hello''\<rparr>"

text \<open>
  A first question, a tool call \<^verbatim>\<open>t1\<close> that gets no result, the end of the reply, and a second
  question.
\<close>

definition second_question :: session where
  "second_question =
     say demo_now ''q2''
       (onmessage demo_now
         (onmessage demo_now (say demo_now ''q1'' online)
           (Valid (no_fields\<lparr>f_status := Some ''tool_calling'', f_tool_calls := Some [mixer_call]\<rparr>)))
         (Valid (no_fields\<lparr>f_type := Some ''done''\<rparr>)))"

definition two_turns :: session where
  "two_turns = onmessage demo_now initial
     (Valid (no_fields\<lparr>f_thought := Some ''plan'', f_content := Some ''answer''\<rparr>))"

text \<open>
  A visit of the page: it is mounted and its socket opens, the user asks a question, and the
  server sends a thought with a reply, a file, and the end of the reply.
\<close>

definition file_frame :: frame where
  "file_frame = no_fields\<lparr>f_type := Some ''file_download'',
       f_file_paths := JArr [JObj [(''path'', JStr ''a.bkp''), (''type'', JStr ''aspen'')]]\<rparr>"

definition visit :: "action list" where
  "visit = [Mount, Socket 0 Ev_open, Type ''q'', Send,
            Socket 0 (Ev_message (Valid (no_fields\<lparr>f_thought := Some ''plan'', f_content := Some ''answer''\<rparr>))),
            Socket 0 (Ev_message (Valid file_frame)),
            Socket 0 (Ev_message (Valid (no_fields\<lparr>f_type := Some ''done''\<rparr>)))]"

definition visited :: session where
  "visited = foldl (perform demo_now) initial visit"

section \<open>Finding and updating in place\<close>

lemma length_update_found [simp]: "length (update_found p u xs) = length xs"
  by (induction xs) auto

lemma update_found_none: "\<forall>x\<in>set xs. \<not> p x \<Longrightarrow> update_found p u xs = xs"
  by (induction xs) auto

lemma update_found_at:
  "i < length xs \<Longrightarrow> p (xs ! i) \<Longrightarrow> \<forall>j<i. \<not> p (xs ! j) \<Longrightarrow>
   update_found p u xs = xs[i := u (xs ! i)]"
proof (induction xs arbitrary: i)
  case Nil
  then show ?case by simp
next
  case (Cons x xs)
  show ?case
  proof (cases i)
    case 0
    with Cons.prems(2) show ?thesis by simp
  next
    case (Suc k)
    have "0 < i" using Suc by simp
    then have "\<not> p ((x # xs) ! 0)" using Cons.prems(3) by blast
    then have nx: "\<not> p x" by simp
    have k: "k < length xs" using Cons.prems(1) Suc by simp
    have pk: "p (xs ! k)" using Cons.prems(2) Suc by simp
    have before: "\<forall>j<k. \<not> p (xs ! j)"
    proof (intro allI impI)
      fix j assume "j < k"
      then have "Suc j < i" using Suc by simp
      then have "\<not> p ((x # xs) ! Suc j)" using Cons.prems(3) by blast
      then show "\<not> p (xs ! j)" by simp
    qed
    have "update_found p u xs = xs[k := u (xs ! k)]"
      by (rule Cons.IH [OF k pk before])
    then show ?thesis using Suc nx by simp
  qed
qed

lemma distinct_first_occurrence:
  assumes "distinct (map f xs)" and "i < length xs"
  shows "\<forall>j<i. f (xs ! j) \<noteq> f (xs ! i)"
proof (intro allI impI)
  fix j assume j: "j < i"
  then have "j < length (map f xs)" "i < length (map f xs)" "j \<noteq> i"
    using assms(2) by simp_all
  then have "map f xs ! j \<noteq> map f xs ! i"
    using assms(1) by (simp add: distinct_conv_nth)
  then show "f (xs ! j) \<noteq> f (xs ! i)"
    using j assms(2) by simp
qed

section \<open>Evaluating the examples\<close>

lemmas eval_defs = onmessage_def onmessage_try_def JSON_parse_def no_fields_def initial_def
  push_def createThoughtMessage_def createAssistantMessage_def createToolRequestMessage_def
  createUserMessage_def mk_id_def show_nat.simps digit_def demo_now_def trim_def is_ws_def
  tool_executed_step_def store_result_def js_or_def

lemma two_turns_eval: "messages two_turns = 
  [\<lparr>msg_id = ''msg_1700000000000_0'', msg_type = Thought, content = Some ''plan'',
       call_id = Undefined, function_name = Undefined, args = Undefined, result = Undefined,
       file_paths = Undefined, is_error = Undefined, collapsed = Some False\<rparr>,
   \<lparr>msg_id = ''msg_1700000000001_1'', msg_type = Assistant, content = Some ''answer'',
       call_id = Undefined, function_name = Undefined, args = Undefined, result = Undefined,
       file_paths = Undefined, is_error = Undefined, collapsed = Some False\<rparr>]"
  by (simp add: two_turns_def eval_defs)

section \<open>The discrete handler, field by field\<close>

lemma trim_empty_iff: "trim t = [] \<longleftrightarrow> (\<forall>c\<in>set t. is_ws c)"
proof
  assume e: "trim t = []"
  show "\<forall>c\<in>set t. is_ws c"
  proof (rule ccontr)
    assume "\<not> (\<forall>c\<in>set t. is_ws c)"
    then have ne: "dropWhile is_ws t \<noteq> []" by simp
    then have "\<not> is_ws (hd (dropWhile is_ws t))" by (rule hd_dropWhile)
    moreover have "hd (dropWhile is_ws t) \<in> set (rev (dropWhile is_ws t))"
      using ne by simp
    ultimately have "\<exists>x\<in>set (rev (dropWhile is_ws t)). \<not> is_ws x"
      by blast
    then have "dropWhile is_ws (rev (dropWhile is_ws t)) \<noteq> []"
      unfolding dropWhile_eq_Nil_conv by blast
    then show False using e by (simp add: trim_def)
  qed
next
  assume "\<forall>c\<in>set t. is_ws c"
  then have d: "dropWhile is_ws t = []" by simp
  show "trim t = []" unfolding trim_def d by simp
qed

lemma has_text_Some: "has_text (Some t) \<longleftrightarrow> t \<noteq> [] \<and> trim t \<noteq> []"
  by (auto simp: has_text_def trim_empty_iff)

lemma has_text_None [simp]: "\<not> has_text None"
  by (simp add: has_text_def)

lemma onmessage_Valid:
  "onmessage now s (Valid data) =
     (if f_type data = Some ''done'' then s\<lparr>loading := False\<rparr>
      else if f_type data = Some ''file_download'' \<and> truthy (f_file_paths data) then
        s\<lparr>messages := messages s @
             [\<lparr>msg_id = mk_id ''file'' now (messageIdCounter s), msg_type = File_download,
               content = None, call_id = Undefined, function_name = Undefined,
               args = Undefined, result = Undefined, file_paths = f_file_paths data,
               is_error = Undefined, collapsed = None\<rparr>],
          messageIdCounter := Suc (messageIdCounter s)\<rparr>
      else content_effect now (f_content data)
             (tool_executed_effect (f_status data) (f_tool_results data)
               (tool_calling_effect now (f_status data) (f_tool_calls data)
                 (thought_effect now (f_thought data) s))))"
proof -
  have th: "(case x of None \<Rightarrow> s' | Some t \<Rightarrow>
               if t \<noteq> [] \<and> trim t \<noteq> [] then push (createThoughtMessage now s' t) else s')
            = thought_effect now x s'" for x s'
    by (cases x) (simp_all add: thought_effect_def has_text_Some)
  have co: "(case x of None \<Rightarrow> s' | Some c \<Rightarrow>
               if c \<noteq> [] \<and> trim c \<noteq> [] then push (createAssistantMessage now s' c) else s')
            = content_effect now x s'" for x s'
    by (cases x) (simp_all add: content_effect_def has_text_Some)
  have tc: "(if st = Some ''tool_calling'' then
               (case x of None \<Rightarrow> s' | Some tcs \<Rightarrow>
                  if length tcs > 0
                  then foldl (\<lambda>st toolCall. push (createToolRequestMessage now st toolCall)) s' tcs
                  else s')
             else s') = tool_calling_effect now st x s'" for st x s'
    by (cases x) (simp_all add: tool_calling_effect_def)
  have te: "(if st = Some ''tool_executed'' then
               (case x of None \<Rightarrow> s' | Some trs \<Rightarrow>
                  if length trs > 0 then foldl tool_executed_step s' trs else s')
             else s') = tool_executed_effect st x s'" for st x s'
    by (cases x) (simp_all add: tool_executed_effect_def)
  show ?thesis
    unfolding onmessage_def onmessage_try_def JSON_parse_def
    by (simp add: Let_def th co tc te push_def)
qed

lemma thought_effect_eq:
  "thought_effect now x s =
     (if has_text x
      then s\<lparr>messages := messages s @ [fst (createThoughtMessage now s (the x))],
             messageIdCounter := Suc (messageIdCounter s)\<rparr>
      else s)"
  by (simp add: thought_effect_def push_def createThoughtMessage_def)

lemma content_effect_eq:
  "content_effect now x s =
     (if has_text x
      then s\<lparr>messages := messages s @ [fst (createAssistantMessage now s (the x))],
             messageIdCounter := Suc (messageIdCounter s)\<rparr>
      else s)"
  by (simp add: content_effect_def push_def createAssistantMessage_def)

lemma foldl_push_tools:
  "foldl (\<lambda>st toolCall. push (createToolRequestMessage now st toolCall)) s cs =
     s\<lparr>messages := messages s @ tool_turns now (messageIdCounter s) cs,
       messageIdCounter := messageIdCounter s + length cs\<rparr>"
proof (induction cs arbitrary: s)
  case Nil
  show ?case by simp
next
  case (Cons c cs)
  let ?s1 = "push (createToolRequestMessage now s c)"
  have s1: "?s1 = s\<lparr>messages := messages s @ tool_turns now (messageIdCounter s) [c],
                      messageIdCounter := Suc (messageIdCounter s)\<rparr>"
    by (simp add: push_def createToolRequestMessage_def)
  have "foldl (\<lambda>st toolCall. push (createToolRequestMessage now st toolCall)) s (c # cs) =
        foldl (\<lambda>st toolCall. push (createToolRequestMessage now st toolCall)) ?s1 cs"
    by simp
  also have "\<dots> = ?s1\<lparr>messages := messages ?s1 @ tool_turns now (messageIdCounter ?s1) cs,
                       messageIdCounter := messageIdCounter ?s1 + length cs\<rparr>"
    by (rule Cons.IH)
  also have "\<dots> = s\<lparr>messages := messages s @ tool_turns now (messageIdCounter s) (c # cs),
                       messageIdCounter := messageIdCounter s + length (c # cs)\<rparr>"
    unfolding s1 by simp
  finally show ?case .
qed

lemma foldl_tool_executed_step:
  "foldl tool_executed_step s trs = s\<lparr>messages := store_results (messages s) trs\<rparr>"
proof (induction trs arbitrary: s)
  case Nil
  show ?case by (simp add: store_results_def)
next
  case (Cons r trs)
  let ?s1 = "tool_executed_step s r"
  have s1: "?s1 = s\<lparr>messages := update_found (answers r) (store_result r) (messages s)\<rparr>"
    unfolding tool_executed_step_def answers_def by simp
  have "foldl tool_executed_step s (r # trs) = foldl tool_executed_step ?s1 trs"
    by simp
  also have "\<dots> = ?s1\<lparr>messages := store_results (messages ?s1) trs\<rparr>"
    by (rule Cons.IH)
  also have "\<dots> = s\<lparr>messages := store_results (messages s) (r # trs)\<rparr>"
    unfolding s1 by (simp add: store_results_def)
  finally show ?case .
qed

lemma tool_calling_effect_eq:
  "tool_calling_effect now st x s =
     (case x of
        Some tcs \<Rightarrow>
          if st = Some ''tool_calling''
          then s\<lparr>messages := messages s @ tool_turns now (messageIdCounter s) tcs,
                 messageIdCounter := messageIdCounter s + length tcs\<rparr>
          else s
      | None \<Rightarrow> s)"
  by (simp add: tool_calling_effect_def foldl_push_tools split: option.splits)

lemma tool_executed_effect_eq:
  "tool_executed_effect st x s =
     (case x of
        Some trs \<Rightarrow>
          if st = Some ''tool_executed'' then s\<lparr>messages := store_results (messages s) trs\<rparr>
          else s
      | None \<Rightarrow> s)"
  by (simp add: tool_executed_effect_def foldl_tool_executed_step split: option.splits)

lemma length_store_results [simp]: "length (store_results ms trs) = length ms"
  unfolding store_results_def by (induction trs arbitrary: ms) simp_all

lemma store_results_Nil [simp]: "store_results ms [] = ms"
  by (simp add: store_results_def)

lemma store_results_Cons:
  "store_results ms (r # trs) = store_results (update_found (answers r) (store_result r) ms) trs"
  by (simp add: store_results_def)

lemma msg_type_store_result [simp]: "msg_type (store_result r m) = msg_type m"
  by (simp add: store_result_def Let_def)

lemma filter_drop_update_found:
  assumes "\<And>x. p x \<Longrightarrow> \<not> q x \<and> \<not> q (u x)"
  shows "filter q (drop n (update_found p u xs)) = filter q (drop n xs)"
proof (induction xs arbitrary: n)
  case Nil
  show ?case by simp
next
  case (Cons x xs)
  show ?case
  proof (cases n)
    case 0
    show ?thesis
    proof (cases "p x")
      case True
      then show ?thesis using assms [of x] 0 by simp
    next
      case False
      then show ?thesis using Cons.IH [of 0] 0 by simp
    qed
  next
    case (Suc k)
    show ?thesis
    proof (cases "p x")
      case True
      then show ?thesis using Suc by simp
    next
      case False
      then show ?thesis using Cons.IH [of k] Suc by simp
    qed
  qed
qed

lemma filter_drop_store_results:
  assumes "ty \<noteq> Tool_request"
  shows "filter (\<lambda>m. msg_type m = ty) (drop n (store_results ms trs)) =
         filter (\<lambda>m. msg_type m = ty) (drop n ms)"
proof (induction trs arbitrary: ms)
  case Nil
  show ?case by simp
next
  case (Cons r trs)
  have "filter (\<lambda>m. msg_type m = ty) (drop n (update_found (answers r) (store_result r) ms)) =
        filter (\<lambda>m. msg_type m = ty) (drop n ms)"
    by (rule filter_drop_update_found) (use assms in \<open>simp add: answers_def\<close>)
  then show ?case
    by (simp add: store_results_Cons Cons.IH)
qed

lemma tool_turns_type: "m \<in> set (tool_turns now n cs) \<Longrightarrow> msg_type m = Tool_request"
  by (induction cs arbitrary: n) auto

lemma filter_tool_turns:
  "ty \<noteq> Tool_request \<Longrightarrow> filter (\<lambda>m. msg_type m = ty) (tool_turns now n cs) = []"
  by (induction cs arbitrary: n) auto

lemma appended_by_fields:
  assumes normal: "\<not> returns_early data" and ty: "ty \<noteq> Tool_request"
  shows "map content (filter (\<lambda>m. msg_type m = ty)
           (drop (length (messages s)) (messages (onmessage now s (Valid data))))) =
         (if ty = Thought \<and> has_text (f_thought data) then [f_thought data] else []) @
         (if ty = Assistant \<and> has_text (f_content data) then [f_content data] else [])"
proof -
  let ?q = "\<lambda>m. msg_type m = ty"
  let ?n = "length (messages s)"
  define s1 where "s1 = thought_effect now (f_thought data) s"
  define s2 where "s2 = tool_calling_effect now (f_status data) (f_tool_calls data) s1"
  define s3 where "s3 = tool_executed_effect (f_status data) (f_tool_results data) s2"
  define s4 where "s4 = content_effect now (f_content data) s3"
  have run: "onmessage now s (Valid data) = s4"
    using normal unfolding onmessage_Valid returns_early_def s4_def s3_def s2_def s1_def
    by auto
  obtain T where m1: "messages s1 = messages s @ T"
    and T: "map content (filter ?q T) =
            (if ty = Thought \<and> has_text (f_thought data) then [f_thought data] else [])"
  proof (cases "has_text (f_thought data)")
    case True
    then obtain t where t: "f_thought data = Some t"
      by (cases "f_thought data") simp_all
    have ht: "has_text (Some t)" using True t by simp
    show ?thesis
      by (rule that [of "[fst (createThoughtMessage now s (the (f_thought data)))]"])
         (auto simp add: s1_def thought_effect_eq ht t createThoughtMessage_def)
  next
    case False
    show ?thesis
      by (rule that [of "[]"]) (simp_all add: s1_def thought_effect_eq False)
  qed
  obtain TC where m2: "messages s2 = messages s1 @ TC" and TC: "filter ?q TC = []"
  proof (cases "f_tool_calls data")
    case None
    show ?thesis
      by (rule that [of "[]"]) (simp_all add: s2_def tool_calling_effect_eq None)
  next
    case (Some tcs)
    show ?thesis
    proof (cases "f_status data = Some ''tool_calling''")
      case True
      show ?thesis
        by (rule that [of "tool_turns now (messageIdCounter s1) tcs"])
           (simp_all add: s2_def tool_calling_effect_eq Some True filter_tool_turns [OF ty])
    next
      case False
      show ?thesis
        by (rule that [of "[]"]) (simp_all add: s2_def tool_calling_effect_eq Some False)
    qed
  qed
  have len3: "length (messages s3) = length (messages s2)"
    by (simp add: s3_def tool_executed_effect_eq split: option.splits)
  have m3: "filter ?q (drop ?n (messages s3)) = filter ?q (drop ?n (messages s2))"
    by (simp add: s3_def tool_executed_effect_eq filter_drop_store_results [OF ty]
          split: option.splits)
  obtain A where m4: "messages s4 = messages s3 @ A"
    and A: "map content (filter ?q A) =
            (if ty = Assistant \<and> has_text (f_content data) then [f_content data] else [])"
  proof (cases "has_text (f_content data)")
    case True
    then obtain c where c: "f_content data = Some c"
      by (cases "f_content data") simp_all
    have hc: "has_text (Some c)" using True c by simp
    show ?thesis
      by (rule that [of "[fst (createAssistantMessage now s3 (the (f_content data)))]"])
         (auto simp add: s4_def content_effect_eq hc c createAssistantMessage_def)
  next
    case False
    show ?thesis
      by (rule that [of "[]"]) (simp_all add: s4_def content_effect_eq False)
  qed
  have le: "?n \<le> length (messages s3)"
    unfolding len3 m2 m1 by simp
  have "filter ?q (drop ?n (messages s4)) = filter ?q (drop ?n (messages s3)) @ filter ?q A"
    unfolding m4 using le by simp
  also have "filter ?q (drop ?n (messages s3)) = filter ?q T"
    unfolding m3 m2 m1 using TC by simp
  finally have "map content (filter ?q (drop ?n (messages s4))) =
                map content (filter ?q T) @ map content (filter ?q A)"
    by simp
  then show ?thesis
    unfolding run T A .
qed

section \<open>Blank thoughts and replies\<close>

lemma blank_thought_as_absent:
  assumes "\<not> has_text (f_thought data)"
  shows "onmessage now s (Valid data) = onmessage now s (Valid (data\<lparr>f_thought := None\<rparr>))"
  unfolding onmessage_Valid using assms by (simp add: thought_effect_def)

lemma blank_content_as_absent:
  assumes "\<not> has_text (f_content data)"
  shows "onmessage now s (Valid data) = onmessage now s (Valid (data\<lparr>f_content := None\<rparr>))"
  unfolding onmessage_Valid using assms by (simp add: content_effect_def)

text \<open>
  C10.  In discrete mode the thought messages that a frame appends are: one, with the
  frame's thought as content, if the thought has a character that is not white space (and
  the frame is not one that returns early); none otherwise.  The same holds for assistant
  messages and the frame's content.  A thought or content without such a character, empty
  or white space only, has no effect at all: the handler does what it does for the frame
  without that field.
\<close>

theorem blank_text_creates_no_turn:
  "map content (filter (\<lambda>m. msg_type m = Thought)
      (drop (length (messages s)) (messages (onmessage now s (Valid data))))) =
     (if has_text (f_thought data) \<and> \<not> returns_early data then [f_thought data] else [])
   \<and> map content (filter (\<lambda>m. msg_type m = Assistant)
      (drop (length (messages s)) (messages (onmessage now s (Valid data))))) =
     (if has_text (f_content data) \<and> \<not> returns_early data then [f_content data] else [])
   \<and> (\<not> has_text (f_thought data) \<longrightarrow>
        onmessage now s (Valid data) = onmessage now s (Valid (data\<lparr>f_thought := None\<rparr>)))
   \<and> (\<not> has_text (f_content data) \<longrightarrow>
        onmessage now s (Valid data) = onmessage now s (Valid (data\<lparr>f_content := None\<rparr>)))"
proof (intro conjI impI)
  show "map content (filter (\<lambda>m. msg_type m = Thought)
      (drop (length (messages s)) (messages (onmessage now s (Valid data))))) =
     (if has_text (f_thought data) \<and> \<not> returns_early data then [f_thought data] else [])"
  proof (cases "returns_early data")
    case True
    then show ?thesis
      unfolding onmessage_Valid returns_early_def by auto
  next
    case False
    show ?thesis
      using appended_by_fields [OF False, of Thought s now] False by simp
  qed
  show "map content (filter (\<lambda>m. msg_type m = Assistant)
      (drop (length (messages s)) (messages (onmessage now s (Valid data))))) =
     (if has_text (f_content data) \<and> \<not> returns_early data then [f_content data] else [])"
  proof (cases "returns_early data")
    case True
    then show ?thesis
      unfolding onmessage_Valid returns_early_def by auto
  next
    case False
    show ?thesis
      using appended_by_fields [OF False, of Assistant s now] False by simp
  qed
next
  assume "\<not> has_text (f_thought data)"
  then show "onmessage now s (Valid data) = onmessage now s (Valid (data\<lparr>f_thought := None\<rparr>))"
    by (rule blank_thought_as_absent)
next
  assume "\<not> has_text (f_content data)"
  then show "onmessage now s (Valid data) = onmessage now s (Valid (data\<lparr>f_content := None\<rparr>))"
    by (rule blank_content_as_absent)
qed

lemma onmessage_no_fields: "onmessage now s (Valid no_fields) = s"
  unfolding onmessage_Valid
  by (simp add: no_fields_def thought_effect_def content_effect_def tool_calling_effect_def
        tool_executed_effect_def)

text \<open>
  The theorem at a frame whose thought is two spaces and a tab, which leaves the page as it
  is, and at a frame whose thought has a letter, which appends one thought message.
\<close>

theorem blank_text_creates_no_turn_witness:
  "\<not> has_text (f_thought (no_fields\<lparr>f_thought := Some [CHR '' '', CHR '' '', CHR 0x09]\<rparr>))
   \<and> onmessage demo_now two_turns
         (Valid (no_fields\<lparr>f_thought := Some [CHR '' '', CHR '' '', CHR 0x09]\<rparr>)) = two_turns
   \<and> map content (filter (\<lambda>m. msg_type m = Thought)
         (drop (length (messages two_turns))
           (messages (onmessage demo_now two_turns (Valid (no_fields\<lparr>f_thought := Some '' a ''\<rparr>))))))
       = [Some '' a '']"
proof -
  let ?blank = "no_fields\<lparr>f_thought := Some [CHR '' '', CHR '' '', CHR 0x09]\<rparr>"
  let ?text = "no_fields\<lparr>f_thought := Some '' a ''\<rparr>"
  have b: "\<not> has_text (f_thought ?blank)"
    by (simp add: has_text_def is_ws_def)
  have "onmessage demo_now two_turns (Valid ?blank) =
        onmessage demo_now two_turns (Valid (?blank\<lparr>f_thought := None\<rparr>))"
    using blank_text_creates_no_turn [of two_turns demo_now ?blank] b by blast
  also have "?blank\<lparr>f_thought := None\<rparr> = no_fields"
    by (simp add: no_fields_def)
  finally have same: "onmessage demo_now two_turns (Valid ?blank) = two_turns"
    by (simp add: onmessage_no_fields)
  have t: "has_text (f_thought ?text) \<and> \<not> returns_early ?text"
    by (simp add: has_text_def is_ws_def returns_early_def no_fields_def)
  have one: "map content (filter (\<lambda>m. msg_type m = Thought)
         (drop (length (messages two_turns))
           (messages (onmessage demo_now two_turns (Valid ?text))))) = [f_thought ?text]"
    using blank_text_creates_no_turn [of two_turns demo_now ?text] t by presburger
  show ?thesis
    using b same one by simp
qed

section \<open>The transcript after a frame\<close>

lemma length_tool_turns [simp]: "length (tool_turns now n cs) = length cs"
  by (induction cs arbitrary: n) simp_all

lemma onmessage_fields:
  fixes s :: session and now :: "nat \<Rightarrow> nat" and data :: frame
  assumes "\<not> returns_early data"
  defines "n \<equiv> messageIdCounter s"
  defines "T \<equiv> text_turn Thought now n (f_thought data)"
  defines "TC \<equiv> tool_turns now (n + length T) (requested data)"
  defines "A \<equiv> text_turn Assistant now (n + length T + length TC) (f_content data)"
  shows "onmessage now s (Valid data) =
           s\<lparr>messages := store_results (messages s @ T @ TC) (resolved data) @ A,
             messageIdCounter := n + length T + length TC + length A\<rparr>"
proof -
  define s1 where "s1 = thought_effect now (f_thought data) s"
  define s2 where "s2 = tool_calling_effect now (f_status data) (f_tool_calls data) s1"
  define s3 where "s3 = tool_executed_effect (f_status data) (f_tool_results data) s2"
  define s4 where "s4 = content_effect now (f_content data) s3"
  have run: "onmessage now s (Valid data) = s4"
    using assms(1) unfolding onmessage_Valid returns_early_def s4_def s3_def s2_def s1_def
    by auto
  have e1: "s1 = s\<lparr>messages := messages s @ T, messageIdCounter := n + length T\<rparr>"
  proof (cases "f_thought data")
    case None
    then show ?thesis
      by (simp add: s1_def thought_effect_eq T_def text_turn_def n_def)
  next
    case (Some t)
    then show ?thesis
      by (simp add: s1_def thought_effect_eq T_def text_turn_def n_def createThoughtMessage_def)
  qed
  have e2: "s2 = s1\<lparr>messages := messages s1 @ TC,
                     messageIdCounter := messageIdCounter s1 + length TC\<rparr>"
    unfolding s2_def tool_calling_effect_eq TC_def requested_def e1
    by (simp split: option.splits)
  have e3: "s3 = s2\<lparr>messages := store_results (messages s2) (resolved data)\<rparr>"
    unfolding s3_def tool_executed_effect_eq resolved_def
    by (simp split: option.splits)
  have c3: "messageIdCounter s3 = n + length T + length TC"
    unfolding e3 e2 e1 by simp
  have e4: "s4 = s3\<lparr>messages := messages s3 @ A,
                     messageIdCounter := messageIdCounter s3 + length A\<rparr>"
  proof (cases "f_content data")
    case None
    then show ?thesis
      by (simp add: s4_def content_effect_eq A_def text_turn_def)
  next
    case (Some c)
    then show ?thesis
      by (simp add: s4_def content_effect_eq A_def text_turn_def createAssistantMessage_def c3)
  qed
  show ?thesis
    unfolding run e4 unfolding e3 e2 e1 by simp
qed

section \<open>Tool results\<close>

lemma onmessage_try_Valid:
  "onmessage_try now s (Valid data) = (Returned, onmessage now s (Valid data))"
  unfolding onmessage_def onmessage_try_def JSON_parse_def
  by (simp add: Let_def)

lemma store_results_orphans:
  "\<forall>r\<in>set trs. \<forall>m\<in>set ms. \<not> answers r m \<Longrightarrow> store_results ms trs = ms"
proof (induction trs)
  case Nil
  show ?case by simp
next
  case (Cons r trs)
  have "update_found (answers r) (store_result r) ms = ms"
    using Cons.prems by (intro update_found_none) simp
  then show ?case
    using Cons by (simp add: store_results_Cons)
qed

lemma orphans_change_nothing:
  assumes "\<not> returns_early data" and "\<not> has_text (f_thought data)"
    and "\<not> has_text (f_content data)" and "f_status data = Some ''tool_executed''"
    and "\<forall>r\<in>set (resolved data). \<forall>m\<in>set (messages s). \<not> answers r m"
  shows "onmessage now s (Valid data) = s"
proof -
  have "requested data = []"
    using assms(4) by (simp add: requested_def split: option.splits)
  then show ?thesis
    unfolding onmessage_fields [OF assms(1)]
    using assms(2,3) store_results_orphans [OF assms(5)]
    by (simp add: text_turn_def)
qed

lemma asked_eval:
  "asked = initial\<lparr>messages := tool_turns demo_now 0 [mixer_call], messageIdCounter := 1\<rparr>"
proof -
  have "\<not> returns_early (no_fields\<lparr>f_status := Some ''tool_calling'', f_tool_calls := Some [mixer_call]\<rparr>)"
    by (simp add: returns_early_def no_fields_def)
  then show ?thesis
    unfolding asked_def
    by (simp add: onmessage_fields text_turn_def requested_def resolved_def no_fields_def
          initial_def)
qed

text \<open>
  C5 (as amended).  A frame of tool results none of which answers a tool request of the
  transcript, and which has no thought and no reply (and is not one that returns early),
  leaves the whole page as it is: no message is added or changed, nothing is written to
  the console, and the handler returns without an exception.
\<close>

theorem orphaned_result_discarded:
  assumes "\<not> returns_early data" and "\<not> has_text (f_thought data)"
    and "\<not> has_text (f_content data)" and "f_status data = Some ''tool_executed''"
    and "\<forall>r\<in>set (resolved data). \<forall>m\<in>set (messages s). \<not> answers r m"
  shows "onmessage_try now s (Valid data) = (Returned, s) \<and> onmessage now s (Valid data) = s"
  unfolding onmessage_try_Valid using orphans_change_nothing [OF assms] by simp

lemma unknown_is_orphan:
  "\<not> returns_early (result_frame [answer ''unknown'' ''ok''])"
  "\<not> has_text (f_thought (result_frame [answer ''unknown'' ''ok'']))"
  "\<not> has_text (f_content (result_frame [answer ''unknown'' ''ok'']))"
  "f_status (result_frame [answer ''unknown'' ''ok'']) = Some ''tool_executed''"
  "\<forall>r\<in>set (resolved (result_frame [answer ''unknown'' ''ok''])). \<forall>m\<in>set (messages asked). \<not> answers r m"
  by (simp_all add: result_frame_def no_fields_def returns_early_def resolved_def asked_eval
        answers_def answer_def mixer_call_def)

text \<open>The theorem at the page with the tool request \<^verbatim>\<open>t1\<close> and a result for \<^verbatim>\<open>unknown\<close>.\<close>

theorem orphaned_result_discarded_witness:
  "onmessage_try demo_now asked (Valid (result_frame [answer ''unknown'' ''ok''])) = (Returned, asked)
   \<and> onmessage demo_now asked (Valid (result_frame [answer ''unknown'' ''ok''])) = asked"
  by (rule orphaned_result_discarded [OF unknown_is_orphan])

text \<open>
  C5 as stated fails where it has a warning logged: after the orphaned result the console
  holds what it held before, which is nothing.
\<close>

theorem orphaned_result_counterexample:
  "console (onmessage demo_now asked (Valid (result_frame [answer ''unknown'' ''ok'']))) = console asked
   \<and> console asked = []"
  unfolding orphans_change_nothing [OF unknown_is_orphan]
  by (simp add: asked_eval initial_def)

section \<open>A second result for the same call\<close>

lemma answers_store_result [simp]: "answers r' (store_result r m) = answers r' m"
  by (simp add: answers_def store_result_def Let_def)

lemma answers_same_call: "tr_call_id r2 = tr_call_id r1 \<Longrightarrow> answers r2 m = answers r1 m"
  by (simp add: answers_def)

lemma result_store_result [simp]: "result (store_result r m) = tr_result r"
  by (simp add: store_result_def Let_def)

lemma one_result_stored:
  fixes s :: session
  assumes normal: "\<not> returns_early data"
    and st: "f_status data = Some ''tool_executed''"
    and res: "f_tool_results data = Some [r]"
    and i: "i < length (messages s)"
    and hit: "answers r (messages s ! i)"
    and first: "\<forall>j<i. \<not> answers r (messages s ! j)"
  shows "messages (onmessage now s (Valid data)) =
           (messages s)[i := store_result r (messages s ! i)]
           @ text_turn Thought now (messageIdCounter s) (f_thought data)
           @ text_turn Assistant now
               (messageIdCounter s + length (text_turn Thought now (messageIdCounter s) (f_thought data)))
               (f_content data)"
proof -
  let ?T = "text_turn Thought now (messageIdCounter s) (f_thought data)"
  let ?xs = "messages s @ ?T"
  have rq: "requested data = []"
    using st by (simp add: requested_def split: option.splits)
  have rs: "resolved data = [r]"
    using st res by (simp add: resolved_def)
  have i': "i < length ?xs" using i by simp
  have hit': "answers r (?xs ! i)" using hit i by (simp add: nth_append)
  have first': "\<forall>j<i. \<not> answers r (?xs ! j)"
    using first i by (simp add: nth_append)
  have "update_found (answers r) (store_result r) ?xs = ?xs[i := store_result r (?xs ! i)]"
    by (rule update_found_at [OF i' hit' first'])
  also have "\<dots> = (messages s)[i := store_result r (messages s ! i)] @ ?T"
    using i by (simp add: list_update_append nth_append)
  finally have "store_results ?xs [r] = (messages s)[i := store_result r (messages s ! i)] @ ?T"
    by (simp add: store_results_Cons)
  then show ?thesis
    unfolding onmessage_fields [OF normal] rq rs by simp
qed

lemma second_result_stored:
  fixes s :: session
  assumes i: "i < length (messages s)"
    and hit: "answers r1 (messages s ! i)"
    and first: "\<forall>j<i. \<not> answers r1 (messages s ! j)"
    and same: "tr_call_id r2 = tr_call_id r1"
    and d1: "\<not> returns_early data1" "f_status data1 = Some ''tool_executed''"
            "f_tool_results data1 = Some [r1]"
    and d2: "\<not> returns_early data2" "f_status data2 = Some ''tool_executed''"
            "f_tool_results data2 = Some [r2]"
  shows "result (messages (onmessage now s (Valid data1)) ! i) = tr_result r1"
    and "result (messages (onmessage now (onmessage now s (Valid data1)) (Valid data2)) ! i) = tr_result r2"
proof -
  have step: "result (messages (onmessage now s' (Valid data)) ! i) = tr_result r
      \<and> i < length (messages (onmessage now s' (Valid data)))
      \<and> answers r1 (messages (onmessage now s' (Valid data)) ! i)
      \<and> (\<forall>j<i. \<not> answers r1 (messages (onmessage now s' (Valid data)) ! j))"
    if "\<not> returns_early data" "f_status data = Some ''tool_executed''"
       "f_tool_results data = Some [r]" "tr_call_id r = tr_call_id r1"
       "i < length (messages s')" "answers r1 (messages s' ! i)"
       "\<forall>j<i. \<not> answers r1 (messages s' ! j)"
    for s' :: session and data r
  proof -
    have h: "answers r (messages s' ! i)" "\<forall>j<i. \<not> answers r (messages s' ! j)"
      using that(4,6,7) by (simp_all add: answers_same_call [of r r1])
    note m = one_result_stored [OF that(1,2,3,5) h, of now]
    show ?thesis
      unfolding m using that(5,6,7) by (simp add: nth_append nth_list_update)
  qed
  note s1 = step [OF d1 refl i hit first]
  show "result (messages (onmessage now s (Valid data1)) ! i) = tr_result r1"
    using s1 by simp
  have s2: "i < length (messages (onmessage now s (Valid data1)))"
    "answers r1 (messages (onmessage now s (Valid data1)) ! i)"
    "\<forall>j<i. \<not> answers r1 (messages (onmessage now s (Valid data1)) ! j)"
    using s1 by simp_all
  show "result (messages (onmessage now (onmessage now s (Valid data1)) (Valid data2)) ! i) = tr_result r2"
    using step [OF d2 same s2] by simp
qed

lemma t1_results:
  "0 < length (messages asked)"
  "answers (answer ''t1'' ''ok'') (messages asked ! 0)"
  "\<forall>j<0. \<not> answers (answer ''t1'' ''ok'') (messages asked ! j)"
  "tr_call_id (answer ''t1'' ''other'') = tr_call_id (answer ''t1'' ''ok'')"
  "\<not> returns_early (result_frame [answer ''t1'' ''ok''])"
  "f_status (result_frame [answer ''t1'' ''ok'']) = Some ''tool_executed''"
  "f_tool_results (result_frame [answer ''t1'' ''ok'']) = Some [answer ''t1'' ''ok'']"
  "\<not> returns_early (result_frame [answer ''t1'' ''other''])"
  "f_status (result_frame [answer ''t1'' ''other'']) = Some ''tool_executed''"
  "f_tool_results (result_frame [answer ''t1'' ''other'']) = Some [answer ''t1'' ''other'']"
  by (simp_all add: result_frame_def no_fields_def returns_early_def asked_eval
        answers_def answer_def mixer_call_def)

text \<open>
  C1 (as amended).  Let the message at position \<open>i\<close> be the first tool request that a result
  \<open>r1\<close> answers, and let \<open>r2\<close> be a result for the same call id.  After a frame that carries
  \<open>r1\<close> the stored result of that message is the result of \<open>r1\<close>; after a second frame that
  carries \<open>r2\<close> it is the result of \<open>r2\<close>: the later result overwrites the earlier one.
\<close>

theorem later_result_overwrites:
  fixes s :: session
  assumes "i < length (messages s)"
    and "answers r1 (messages s ! i)"
    and "\<forall>j<i. \<not> answers r1 (messages s ! j)"
    and "tr_call_id r2 = tr_call_id r1"
    and "\<not> returns_early data1" and "f_status data1 = Some ''tool_executed''"
    and "f_tool_results data1 = Some [r1]"
    and "\<not> returns_early data2" and "f_status data2 = Some ''tool_executed''"
    and "f_tool_results data2 = Some [r2]"
  shows "result (messages (onmessage now s (Valid data1)) ! i) = tr_result r1
       \<and> result (messages (onmessage now (onmessage now s (Valid data1)) (Valid data2)) ! i)
           = tr_result r2"
  using second_result_stored [OF assms] by simp

text \<open>
  The theorem at the page with the tool request \<^verbatim>\<open>t1\<close>, for the results "ok" and then "other".
\<close>

theorem later_result_overwrites_witness:
  "result (messages (onmessage demo_now asked (Valid (result_frame [answer ''t1'' ''ok'']))) ! 0)
     = JStr ''ok''
   \<and> result (messages (onmessage demo_now
         (onmessage demo_now asked (Valid (result_frame [answer ''t1'' ''ok''])))
         (Valid (result_frame [answer ''t1'' ''other'']))) ! 0) = JStr ''other''"
  using later_result_overwrites [OF t1_results, of demo_now] by (simp add: answer_def)

text \<open>
  C1 as stated fails: after the results "ok" and then "other" for \<^verbatim>\<open>t1\<close>, the stored result is
  not the first one.
\<close>

theorem first_result_retained_counterexample:
  "result (messages (onmessage demo_now
       (onmessage demo_now asked (Valid (result_frame [answer ''t1'' ''ok''])))
       (Valid (result_frame [answer ''t1'' ''other'']))) ! 0) \<noteq> tr_result (answer ''t1'' ''ok'')"
  using second_result_stored(2) [OF t1_results, of demo_now] by (simp add: answer_def)

section \<open>The incremental handler, field by field\<close>

lemma on_last_snoc [simp]: "on_last f (xs @ [x]) = xs @ [f x]"
  by (simp add: on_last_def)

lemma open_turn_split:
  "(if needs_turn ms then ms @ [fresh_turn] else ms) = closed_turns ms @ [open_turn ms]"
  by (simp add: closed_turns_def open_turn_def needs_turn_def)

lemma onmessage_inc_fields:
  fixes s :: "turn page"
  assumes "f_type data \<noteq> Some ''done''"
  defines "pre \<equiv> closed_turns (messages s)"
  defines "m \<equiv> add_content (f_content data) (add_thought (f_thought data) (open_turn (messages s)))"
  shows "onmessage_inc s (Valid data) =
          (if f_status data = Some ''tool_calling'' then
             (case (tool_calls m, f_tool_calls data) of
                (Some tools, Some tcs) \<Rightarrow>
                  (Returned, s\<lparr>messages := pre @ [m\<lparr>tool_calls := Some (tools @ map as_tool tcs)\<rparr>]\<rparr>)
              | _ \<Rightarrow> (Threw TypeError, s\<lparr>messages := pre @ [m]\<rparr>))
           else if f_status data = Some ''tool_executed'' then
             (case (tool_calls m, f_tool_results data) of
                (Some tools, Some trs) \<Rightarrow>
                  (Returned, s\<lparr>messages := pre @ [m\<lparr>tool_calls := Some (foldl find_tool_step tools trs)\<rparr>]\<rparr>)
              | _ \<Rightarrow> (Threw TypeError, s\<lparr>messages := pre @ [m]\<rparr>))
           else (Returned, s\<lparr>messages := pre @ [m]\<rparr>))"
proof -
  define s1 where "s1 = (if messages s = [] \<or> role (last (messages s)) = User_role
                      then s\<lparr>messages := messages s @
                             [\<lparr>role = Assistant_role, t_content = [], thought = Some [],
                               tool_calls = Some []\<rparr>]\<rparr>
                      else s)"
  define s2 where "s2 = (case f_thought data of
                        None \<Rightarrow> s1
                      | Some t \<Rightarrow>
                          if t \<noteq> []
                          then s1\<lparr>messages :=
                                 on_last (\<lambda>m. m\<lparr>thought := plus_assign (thought m) t\<rparr>) (messages s1)\<rparr>
                          else s1)"
  define s3 where "s3 = (case f_content data of
                        None \<Rightarrow> s2
                      | Some c \<Rightarrow>
                          if c \<noteq> []
                          then s2\<lparr>messages :=
                                 on_last (\<lambda>m. m\<lparr>t_content := t_content m @ c\<rparr>) (messages s2)\<rparr>
                          else s2)"
  have e1: "s1 = s\<lparr>messages := pre @ [open_turn (messages s)]\<rparr>"
    unfolding s1_def pre_def open_turn_split [symmetric]
    by (simp add: needs_turn_def fresh_turn_def)
  have e2: "s2 = s\<lparr>messages := pre @ [add_thought (f_thought data) (open_turn (messages s))]\<rparr>"
    unfolding s2_def e1 by (simp add: add_thought_def delta_def split: option.splits)
  have e3: "s3 = s\<lparr>messages := pre @ [m]\<rparr>"
    unfolding s3_def e2 m_def by (simp add: add_content_def delta_def split: option.splits)
  have "onmessage_inc s (Valid data) =
     (let r4 = (if f_status data = Some ''tool_calling'' then
                        (case (tool_calls (last (messages s3)), f_tool_calls data) of
                           (Some tools, Some tcs) \<Rightarrow>
                             (Returned,
                              s3\<lparr>messages :=
                                   on_last (\<lambda>m. m\<lparr>tool_calls := Some (tools @ map as_tool tcs)\<rparr>)
                                     (messages s3)\<rparr>)
                         | _ \<Rightarrow> (Threw TypeError, s3))
                      else (Returned, s3))
            in case r4 of
                 (Threw e, s4) \<Rightarrow> (Threw e, s4)
               | (Returned, s4) \<Rightarrow>
                   if f_status data = Some ''tool_executed'' then
                     (case (tool_calls (last (messages s4)), f_tool_results data) of
                        (Some tools, Some trs) \<Rightarrow>
                          (Returned,
                           s4\<lparr>messages :=
                                on_last (\<lambda>m. m\<lparr>tool_calls := Some (foldl find_tool_step tools trs)\<rparr>)
                                  (messages s4)\<rparr>)
                      | _ \<Rightarrow> (Threw TypeError, s4))
                   else (Returned, s4))"
    unfolding onmessage_inc_def JSON_parse_def s3_def s2_def s1_def using assms(1)
    by (simp add: Let_def)
  then show ?thesis
    unfolding e3 by (simp add: Let_def split: option.splits)
qed

section \<open>Streamed text\<close>

lemma onmessage_inc_delta:
  fixes s :: "turn page"
  assumes "is_delta data"
  shows "onmessage_inc s (Valid data) =
          (Returned, s\<lparr>messages := closed_turns (messages s) @
             [add_content (f_content data) (add_thought (f_thought data) (open_turn (messages s)))]\<rparr>)"
proof -
  have "f_type data \<noteq> Some ''done''"
    using assms by (simp add: is_delta_def)
  then show ?thesis
    using assms by (simp add: onmessage_inc_fields is_delta_def)
qed

lemma open_turn_continues:
  assumes "role m \<noteq> User_role"
  shows "closed_turns (pre @ [m]) = pre" and "open_turn (pre @ [m]) = m"
  using assms by (simp_all add: closed_turns_def open_turn_def needs_turn_def)

lemma role_open_turn: "role (open_turn ms) \<noteq> User_role"
  by (simp add: open_turn_def needs_turn_def fresh_turn_def)

lemma deliver_inc_deltas:
  fixes s :: "turn page"
  assumes "\<forall>data\<in>set fs. is_delta data"
    and "messages s = pre @ [m]" and "role m \<noteq> User_role" and "thought m = Some th"
  shows "deliver_inc s fs =
           s\<lparr>messages := pre @
               [m\<lparr>t_content := t_content m @ concat (map (\<lambda>data. delta (f_content data)) fs),
                  thought := Some (th @ concat (map (\<lambda>data. delta (f_thought data)) fs))\<rparr>]\<rparr>"
  using assms
proof (induction fs arbitrary: s m th)
  case Nil
  have "m\<lparr>t_content := t_content m, thought := Some th\<rparr> = m"
    using Nil.prems(4) by simp
  then show ?case
    using Nil.prems(2) by (simp add: deliver_inc_def)
next
  case (Cons data fs)
  let ?m1 = "add_content (f_content data) (add_thought (f_thought data) m)"
  let ?s1 = "s\<lparr>messages := pre @ [?m1]\<rparr>"
  have d: "is_delta data" and ds: "\<forall>data\<in>set fs. is_delta data"
    using Cons.prems(1) by simp_all
  have step: "onmessage_inc s (Valid data) = (Returned, ?s1)"
    unfolding onmessage_inc_delta [OF d] Cons.prems(2)
      open_turn_continues [OF Cons.prems(3)] ..
  have r1: "role ?m1 \<noteq> User_role"
    using Cons.prems(3) by (simp add: add_content_def add_thought_def)
  have t1: "thought ?m1 = Some (th @ delta (f_thought data))"
    using Cons.prems(4) by (simp add: add_content_def add_thought_def plus_assign_def)
  have c1: "t_content ?m1 = t_content m @ delta (f_content data)"
    by (simp add: add_content_def add_thought_def)
  have "deliver_inc s (data # fs) = deliver_inc ?s1 fs"
    by (simp add: deliver_inc_def step)
  also have "\<dots> = ?s1\<lparr>messages := pre @
               [?m1\<lparr>t_content := t_content ?m1 @ concat (map (\<lambda>data. delta (f_content data)) fs),
                  thought := Some ((th @ delta (f_thought data)) @
                     concat (map (\<lambda>data. delta (f_thought data)) fs))\<rparr>]\<rparr>"
    by (rule Cons.IH [OF ds _ r1 t1]) simp
  also have "\<dots> = s\<lparr>messages := pre @
               [m\<lparr>t_content := t_content m @ concat (map (\<lambda>data. delta (f_content data)) (data # fs)),
                  thought := Some (th @ concat (map (\<lambda>data. delta (f_thought data)) (data # fs)))\<rparr>]\<rparr>"
    unfolding c1 by (simp add: add_content_def add_thought_def)
  finally show ?case .
qed

text \<open>
  C6.  In incremental mode, after one or more frames of streamed text the page differs from
  the page before only in its last message: the messages that were closed are as they
  were, and the open agent message (a new one if the transcript was empty or ended with a
  user message) has as content its content before followed by the frames' content texts in
  the order of arrival, and as thought its thought before followed by the frames' thought
  texts.  Every one of these calls of the handler returns.
\<close>

theorem deltas_concatenate:
  fixes s :: "turn page"
  assumes "fs \<noteq> []" and "\<forall>data\<in>set fs. is_delta data"
    and "thought (open_turn (messages s)) = Some th"
  shows "deliver_inc s fs =
           s\<lparr>messages := closed_turns (messages s) @
               [(open_turn (messages s))
                  \<lparr>t_content := t_content (open_turn (messages s)) @
                                  concat (map (\<lambda>data. delta (f_content data)) fs),
                   thought := Some (th @ concat (map (\<lambda>data. delta (f_thought data)) fs))\<rparr>]\<rparr>
         \<and> (\<forall>data\<in>set fs. \<forall>st. fst (onmessage_inc st (Valid data)) = Returned)"
proof
  let ?pre = "closed_turns (messages s)" and ?m = "open_turn (messages s)"
  let ?s0 = "s\<lparr>messages := ?pre @ [?m]\<rparr>"
  obtain data fs' where fs: "fs = data # fs'"
    using assms(1) by (cases fs) simp_all
  have d: "is_delta data"
    using assms(2) fs by simp
  have "onmessage_inc ?s0 (Valid data) = onmessage_inc s (Valid data)"
    unfolding onmessage_inc_delta [OF d]
    by (simp add: open_turn_continues [OF role_open_turn])
  then have "deliver_inc s fs = deliver_inc ?s0 fs"
    unfolding fs deliver_inc_def by simp
  also have "\<dots> = ?s0\<lparr>messages := ?pre @
               [?m\<lparr>t_content := t_content ?m @ concat (map (\<lambda>data. delta (f_content data)) fs),
                   thought := Some (th @ concat (map (\<lambda>data. delta (f_thought data)) fs))\<rparr>]\<rparr>"
    by (rule deliver_inc_deltas [OF assms(2) _ role_open_turn assms(3)]) simp
  finally show "deliver_inc s fs =
           s\<lparr>messages := ?pre @
               [?m\<lparr>t_content := t_content ?m @ concat (map (\<lambda>data. delta (f_content data)) fs),
                   thought := Some (th @ concat (map (\<lambda>data. delta (f_thought data)) fs))\<rparr>]\<rparr>"
    by simp
  show "\<forall>data\<in>set fs. \<forall>st. fst (onmessage_inc st (Valid data)) = Returned"
    using assms(2) by (simp add: onmessage_inc_delta)
qed

lemma hello_deltas:
  "[content_delta ''Hel'', content_delta ''lo''] \<noteq> []"
  "\<forall>data\<in>set [content_delta ''Hel'', content_delta ''lo'']. is_delta data"
  "thought (open_turn (messages (initial :: turn page))) = Some []"
  by (simp_all add: content_delta_def no_fields_def is_delta_def open_turn_def needs_turn_def
        initial_def fresh_turn_def)

text \<open>
  The theorem at the first page and the frames with the contents "Hel" and "lo": the one
  message has the content "Hello".
\<close>

theorem deltas_concatenate_witness:
  "messages (deliver_inc initial [content_delta ''Hel'', content_delta ''lo'']) =
     [\<lparr>role = Assistant_role, t_content = ''Hello'', thought = Some [], tool_calls = Some []\<rparr>]
   \<and> fst (onmessage_inc initial (Valid (content_delta ''Hel''))) = Returned"
proof -
  note t = deltas_concatenate [OF hello_deltas]
  have "messages (deliver_inc initial [content_delta ''Hel'', content_delta ''lo'']) =
     [\<lparr>role = Assistant_role, t_content = ''Hello'', thought = Some [], tool_calls = Some []\<rparr>]"
    unfolding t [THEN conjunct1]
    by (simp add: closed_turns_def open_turn_def needs_turn_def initial_def fresh_turn_def
          content_delta_def no_fields_def delta_def)
  moreover have "fst (onmessage_inc initial (Valid (content_delta ''Hel''))) = Returned"
    using t [THEN conjunct2] by simp
  ultimately show ?thesis ..
qed

section \<open>Sending a message\<close>

lemma socket_send_cases:
  "socket_send s d =
     (if sockets s = [] then Inl TypeError
      else if readyState (last (sockets s)) = CONNECTING then Inl InvalidStateError
      else if readyState (last (sockets s)) = OPEN
        then Inr (s\<lparr>sockets := butlast (sockets s) @ [(last (sockets s))\<lparr>sent := sent (last (sockets s)) @ [d]\<rparr>]\<rparr>)
      else Inr s)"
  by (cases "readyState (last (sockets s))")
     (simp_all add: socket_send_def ws_send_def)

lemma sendMessage_cases:
  "sendMessage now s =
     (if userInput s = [] \<or> loading s then (Returned, s)
      else if sockets s = [] then
        (Threw TypeError,
         s\<lparr>messages := messages s @ [fst (createUserMessage now s (userInput s))],
           messageIdCounter := Suc (messageIdCounter s)\<rparr>)
      else if readyState (last (sockets s)) = CONNECTING then
        (Threw InvalidStateError,
         s\<lparr>messages := messages s @ [fst (createUserMessage now s (userInput s))],
           messageIdCounter := Suc (messageIdCounter s)\<rparr>)
      else
        (Returned,
         s\<lparr>messages := messages s @ [fst (createUserMessage now s (userInput s))],
           messageIdCounter := Suc (messageIdCounter s),
           sockets := (if readyState (last (sockets s)) = OPEN
                       then butlast (sockets s) @
                            [(last (sockets s))\<lparr>sent := sent (last (sockets s)) @
                                                     [Message_frame (userInput s)]\<rparr>]
                       else sockets s),
           userInput := [], loading := True\<rparr>))"
  unfolding sendMessage_def socket_send_cases
  by (simp add: Let_def push_def createUserMessage_def)

lemma sendMessage_inc_cases:
  "sendMessage_inc s =
     (if userInput s = [] \<or> loading s then (Returned, s)
      else if sockets s = [] then
        (Threw TypeError,
         s\<lparr>messages := messages s @
            [\<lparr>role = User_role, t_content = userInput s, thought = None, tool_calls = None\<rparr>]\<rparr>)
      else if readyState (last (sockets s)) = CONNECTING then
        (Threw InvalidStateError,
         s\<lparr>messages := messages s @
            [\<lparr>role = User_role, t_content = userInput s, thought = None, tool_calls = None\<rparr>]\<rparr>)
      else
        (Returned,
         s\<lparr>messages := messages s @
            [\<lparr>role = User_role, t_content = userInput s, thought = None, tool_calls = None\<rparr>],
           sockets := (if readyState (last (sockets s)) = OPEN
                       then butlast (sockets s) @
                            [(last (sockets s))\<lparr>sent := sent (last (sockets s)) @
                                                     [Message_frame (userInput s)]\<rparr>]
                       else sockets s),
           userInput := [], loading := True\<rparr>))"
  unfolding sendMessage_inc_def socket_send_cases
  by (simp add: Let_def)

lemma offline_eval:
  "offline = initial\<lparr>userInput := ''hello'', console := [Log_connected, Log_closed_retry],
       timers := [\<lparr>callback = InitWebSocket, delay = 3000\<rparr>],
       sockets := [\<lparr>readyState = CLOSED, sent = []\<rparr>]\<rparr>"
  by (simp add: offline_def online_def dispatch_def initWebSocket_def initial_def
        set_readyState_def onopen_def onclose_def)

lemma offline_inc_eval:
  "offline_inc = initial\<lparr>userInput := ''hello'', console := [Log_connected],
       timers := [\<lparr>callback = InitWebSocket, delay = 3000\<rparr>],
       sockets := [\<lparr>readyState = CLOSED, sent = []\<rparr>]\<rparr>"
  by (simp add: offline_inc_def online_inc_def dispatch_inc_def initWebSocket_def initial_def
        set_readyState_def onopen_inc_def onclose_inc_def)

text \<open>
  C7 (as amended).  \<^verbatim>\<open>sendMessage\<close> does not look at the connection.  With an empty input or
  while a reply is awaited it returns and changes nothing.  Otherwise it appends exactly
  one user message, whose content is the input, whatever the state of the connection, and
  then calls \<^verbatim>\<open>socket.send\<close>: the frame \<^verbatim>\<open>{message: input}\<close> is transmitted once if the socket is
  open and not at all otherwise, and no timer or other queue is touched.  The flag
  \<^verbatim>\<open>wsConnected\<close> has no influence on any of this.  The same holds for the streaming page.
\<close>

theorem sendMessage_ignores_connection:
  "(userInput s = [] \<or> loading s \<longrightarrow> sendMessage now s = (Returned, s))
   \<and> (userInput s \<noteq> [] \<and> \<not> loading s \<longrightarrow>
        messages (snd (sendMessage now s)) =
          messages s @ [fst (createUserMessage now s (userInput s))]
        \<and> content (fst (createUserMessage now s (userInput s))) = Some (userInput s)
        \<and> msg_type (fst (createUserMessage now s (userInput s))) = User
        \<and> map sent (sockets (snd (sendMessage now s))) =
            (if sockets s \<noteq> [] \<and> readyState (last (sockets s)) = OPEN
             then map sent (butlast (sockets s)) @
                  [sent (last (sockets s)) @ [Message_frame (userInput s)]]
             else map sent (sockets s))
        \<and> timers (snd (sendMessage now s)) = timers s)
   \<and> sendMessage now (s\<lparr>wsConnected := b\<rparr>) =
       (fst (sendMessage now s), (snd (sendMessage now s))\<lparr>wsConnected := b\<rparr>)
   \<and> (userInput t = [] \<or> loading t \<longrightarrow> sendMessage_inc t = (Returned, t))
   \<and> (userInput t \<noteq> [] \<and> \<not> loading t \<longrightarrow>
        messages (snd (sendMessage_inc t)) =
          messages t @ [\<lparr>role = User_role, t_content = userInput t, thought = None,
                         tool_calls = None\<rparr>]
        \<and> map sent (sockets (snd (sendMessage_inc t))) =
            (if sockets t \<noteq> [] \<and> readyState (last (sockets t)) = OPEN
             then map sent (butlast (sockets t)) @
                  [sent (last (sockets t)) @ [Message_frame (userInput t)]]
             else map sent (sockets t))
        \<and> timers (snd (sendMessage_inc t)) = timers t)
   \<and> sendMessage_inc (t\<lparr>wsConnected := b\<rparr>) =
       (fst (sendMessage_inc t), (snd (sendMessage_inc t))\<lparr>wsConnected := b\<rparr>)"
proof -
  have a: "userInput s = [] \<or> loading s \<longrightarrow> sendMessage now s = (Returned, s)"
    by (simp add: sendMessage_cases)
  have b: "userInput s \<noteq> [] \<and> \<not> loading s \<longrightarrow>
        messages (snd (sendMessage now s)) =
          messages s @ [fst (createUserMessage now s (userInput s))]
        \<and> content (fst (createUserMessage now s (userInput s))) = Some (userInput s)
        \<and> msg_type (fst (createUserMessage now s (userInput s))) = User
        \<and> map sent (sockets (snd (sendMessage now s))) =
            (if sockets s \<noteq> [] \<and> readyState (last (sockets s)) = OPEN
             then map sent (butlast (sockets s)) @
                  [sent (last (sockets s)) @ [Message_frame (userInput s)]]
             else map sent (sockets s))
        \<and> timers (snd (sendMessage now s)) = timers s"
    by (simp add: sendMessage_cases createUserMessage_def)
  have c: "sendMessage now (s\<lparr>wsConnected := b\<rparr>) =
       (fst (sendMessage now s), (snd (sendMessage now s))\<lparr>wsConnected := b\<rparr>)"
    by (simp add: sendMessage_cases createUserMessage_def)
  have d: "userInput t = [] \<or> loading t \<longrightarrow> sendMessage_inc t = (Returned, t)"
    by (simp add: sendMessage_inc_cases)
  have e: "userInput t \<noteq> [] \<and> \<not> loading t \<longrightarrow>
        messages (snd (sendMessage_inc t)) =
          messages t @ [\<lparr>role = User_role, t_content = userInput t, thought = None,
                         tool_calls = None\<rparr>]
        \<and> map sent (sockets (snd (sendMessage_inc t))) =
            (if sockets t \<noteq> [] \<and> readyState (last (sockets t)) = OPEN
             then map sent (butlast (sockets t)) @
                  [sent (last (sockets t)) @ [Message_frame (userInput t)]]
             else map sent (sockets t))
        \<and> timers (snd (sendMessage_inc t)) = timers t"
    by (simp add: sendMessage_inc_cases)
  have f: "sendMessage_inc (t\<lparr>wsConnected := b\<rparr>) =
       (fst (sendMessage_inc t), (snd (sendMessage_inc t))\<lparr>wsConnected := b\<rparr>)"
    by (simp add: sendMessage_inc_cases)
  show ?thesis
    by (intro conjI a b c d e f)
qed

text \<open>
  The theorem at the page whose only socket has closed, with "hello" in the input box, and
  at the first page of the streaming version, whose input box is empty.
\<close>

theorem sendMessage_ignores_connection_witness:
  "userInput offline \<noteq> [] \<and> \<not> loading offline
   \<and> messages (snd (sendMessage demo_now offline)) =
       messages offline @ [fst (createUserMessage demo_now offline (userInput offline))]
   \<and> map sent (sockets (snd (sendMessage demo_now offline))) = [[]]
   \<and> userInput (initial :: turn page) = []
   \<and> sendMessage_inc initial = (Returned, initial)"
proof -
  have h: "userInput offline \<noteq> [] \<and> \<not> loading offline"
    by (simp add: offline_eval initial_def)
  have h': "userInput (initial :: turn page) = [] \<or> loading (initial :: turn page)"
    by (simp add: initial_def)
  note t = sendMessage_ignores_connection [of offline demo_now True initial]
  have m: "messages (snd (sendMessage demo_now offline)) =
       messages offline @ [fst (createUserMessage demo_now offline (userInput offline))]"
    using t h by blast
  have "map sent (sockets (snd (sendMessage demo_now offline))) =
            (if sockets offline \<noteq> [] \<and> readyState (last (sockets offline)) = OPEN
             then map sent (butlast (sockets offline)) @
                  [sent (last (sockets offline)) @ [Message_frame (userInput offline)]]
             else map sent (sockets offline))"
    using t h by blast
  then have w: "map sent (sockets (snd (sendMessage demo_now offline))) = [[]]"
    by (simp add: offline_eval initial_def)
  have i: "sendMessage_inc initial = (Returned, initial)"
    using t h' by blast
  show ?thesis
    using h m w i by (simp add: initial_def)
qed

text \<open>
  C7 as stated fails: with the connection closed (\<^verbatim>\<open>wsConnected\<close> false, the socket closed) and
  "hello" typed, \<^verbatim>\<open>sendMessage\<close> returns normally and the transcript, empty before, has a user
  message "hello"; the streaming page does the same.
\<close>

theorem sendMessage_offline_counterexample:
  "\<not> wsConnected offline \<and> map readyState (sockets offline) = [CLOSED]
   \<and> messages offline = []
   \<and> fst (sendMessage demo_now offline) = Returned
   \<and> map content (messages (snd (sendMessage demo_now offline))) = [Some ''hello'']
   \<and> \<not> wsConnected offline_inc \<and> map readyState (sockets offline_inc) = [CLOSED]
   \<and> messages offline_inc = []
   \<and> map t_content (messages (snd (sendMessage_inc offline_inc))) = [''hello'']"
  by (simp add: sendMessage_cases sendMessage_inc_cases offline_eval offline_inc_eval initial_def
        createUserMessage_def)

section \<open>Closing and reconnecting\<close>

lemma update_last: "xs \<noteq> [] \<Longrightarrow> xs[length xs - Suc 0 := x] = butlast xs @ [x]"
  by (cases xs rule: rev_cases) simp_all

lemma close_cycle:
  fixes s :: session
  assumes "timers s = []" and "sockets s \<noteq> []"
  shows "timeout_fires (dispatch now (length (sockets s) - 1) Ev_close s) =
           s\<lparr>wsConnected := False, console := console s @ [Log_closed_retry], timers := [],
             sockets := butlast (sockets s) @
               [(last (sockets s))\<lparr>readyState := CLOSED\<rparr>, \<lparr>readyState = CONNECTING, sent = []\<rparr>]\<rparr>"
proof -
  have k: "length (sockets s) - 1 < length (sockets s)"
    using assms(2) by simp
  have l: "(sockets s)[length (sockets s) - Suc 0 := x] = butlast (sockets s) @ [x]" for x
    using assms(2) by (rule update_last)
  have n: "sockets s ! (length (sockets s) - Suc 0) = last (sockets s)"
    using assms(2) by (simp add: last_conv_nth)
  show ?thesis
    using k assms(1)
    by (simp add: dispatch_def set_readyState_def onclose_def timeout_fires_def
          initWebSocket_def l n)
qed

lemma close_cycle_inc:
  fixes s :: "turn page"
  assumes "timers s = []" and "sockets s \<noteq> []"
  shows "timeout_fires (dispatch_inc (length (sockets s) - 1) Ev_close s) =
           s\<lparr>wsConnected := False, timers := [],
             sockets := butlast (sockets s) @
               [(last (sockets s))\<lparr>readyState := CLOSED\<rparr>, \<lparr>readyState = CONNECTING, sent = []\<rparr>]\<rparr>"
proof -
  have k: "length (sockets s) - 1 < length (sockets s)"
    using assms(2) by simp
  have l: "(sockets s)[length (sockets s) - Suc 0 := x] = butlast (sockets s) @ [x]" for x
    using assms(2) by (rule update_last)
  have n: "sockets s ! (length (sockets s) - Suc 0) = last (sockets s)"
    using assms(2) by (simp add: last_conv_nth)
  show ?thesis
    using k assms(1)
    by (simp add: dispatch_inc_def set_readyState_def onclose_inc_def timeout_fires_def
          initWebSocket_def l n)
qed

lemma reconnects_sockets:
  fixes s :: session
  assumes "timers s = []" and "sockets s \<noteq> []"
  shows "length (sockets (reconnects now n s)) = length (sockets s) + n
       \<and> timers (reconnects now n s) = [] \<and> sockets (reconnects now n s) \<noteq> []
       \<and> messages (reconnects now n s) = messages s
       \<and> (0 < n \<longrightarrow> last (sockets (reconnects now n s)) = \<lparr>readyState = CONNECTING, sent = []\<rparr>
                    \<and> \<not> wsConnected (reconnects now n s))"
  using assms
proof (induction n arbitrary: s)
  case 0
  then show ?case by simp
next
  case (Suc n)
  let ?s1 = "timeout_fires (dispatch now (length (sockets s) - 1) Ev_close s)"
  note c = close_cycle [OF Suc.prems, of now]
  have p: "timers ?s1 = []" "sockets ?s1 \<noteq> []"
    unfolding c using Suc.prems by simp_all
  note ih = Suc.IH [OF p]
  have q: "length (sockets ?s1) = Suc (length (sockets s))" "messages ?s1 = messages s"
    "last (sockets ?s1) = \<lparr>readyState = CONNECTING, sent = []\<rparr>" "\<not> wsConnected ?s1"
    unfolding c using Suc.prems(2) by simp_all
  show ?case
  proof (cases n)
    case 0
    then show ?thesis using q p by simp
  next
    case (Suc m)
    then show ?thesis using ih q by simp
  qed
qed

lemma reconnects_inc_sockets:
  fixes s :: "turn page"
  assumes "timers s = []" and "sockets s \<noteq> []"
  shows "length (sockets (reconnects_inc n s)) = length (sockets s) + n
       \<and> timers (reconnects_inc n s) = [] \<and> sockets (reconnects_inc n s) \<noteq> []
       \<and> messages (reconnects_inc n s) = messages s
       \<and> (0 < n \<longrightarrow> last (sockets (reconnects_inc n s)) = \<lparr>readyState = CONNECTING, sent = []\<rparr>
                    \<and> \<not> wsConnected (reconnects_inc n s))"
  using assms
proof (induction n arbitrary: s)
  case 0
  then show ?case by simp
next
  case (Suc n)
  let ?s1 = "timeout_fires (dispatch_inc (length (sockets s) - 1) Ev_close s)"
  note c = close_cycle_inc [OF Suc.prems]
  have p: "timers ?s1 = []" "sockets ?s1 \<noteq> []"
    unfolding c using Suc.prems by simp_all
  note ih = Suc.IH [OF p]
  have q: "length (sockets ?s1) = Suc (length (sockets s))" "messages ?s1 = messages s"
    "last (sockets ?s1) = \<lparr>readyState = CONNECTING, sent = []\<rparr>" "\<not> wsConnected ?s1"
    unfolding c using Suc.prems(2) by simp_all
  show ?case
  proof (cases n)
    case 0
    then show ?thesis using q p by simp
  next
    case (Suc m)
    then show ?thesis using ih q by simp
  qed
qed

lemma close_event:
  fixes s :: session
  assumes "k < length (sockets s)"
  shows "\<not> wsConnected (dispatch now k Ev_close s)"
    and "timers (dispatch now k Ev_close s) = timers s @ [\<lparr>callback = InitWebSocket, delay = 3000\<rparr>]"
    and "length (sockets (dispatch now k Ev_close s)) = length (sockets s)"
    and "messages (dispatch now k Ev_close s) = messages s"
  using assms by (simp_all add: dispatch_def set_readyState_def onclose_def)

lemma close_event_inc:
  fixes s :: "turn page"
  assumes "k < length (sockets s)"
  shows "\<not> wsConnected (dispatch_inc k Ev_close s)"
    and "timers (dispatch_inc k Ev_close s) = timers s @ [\<lparr>callback = InitWebSocket, delay = 3000\<rparr>]"
    and "length (sockets (dispatch_inc k Ev_close s)) = length (sockets s)"
    and "messages (dispatch_inc k Ev_close s) = messages s"
  using assms by (simp_all add: dispatch_inc_def set_readyState_def onclose_inc_def)

lemma open_then_message:
  fixes s :: session
  assumes "k < length (sockets s)"
  shows "wsConnected (dispatch now k Ev_open s)"
    and "dispatch now k (Ev_message d) (dispatch now k Ev_open s) =
         onmessage now (dispatch now k Ev_open s) d"
  using assms by (simp_all add: dispatch_def set_readyState_def onopen_def)

lemma open_then_message_inc:
  fixes s :: "turn page"
  assumes "k < length (sockets s)"
  shows "wsConnected (dispatch_inc k Ev_open s)"
    and "dispatch_inc k (Ev_message d) (dispatch_inc k Ev_open s) =
         snd (onmessage_inc (dispatch_inc k Ev_open s) d)"
  using assms by (simp_all add: dispatch_inc_def set_readyState_def onopen_inc_def)

text \<open>
  C8.  When a socket of the page closes, the page is marked as not connected and exactly one
  timer is added, for \<^verbatim>\<open>initWebSocket\<close> after 3000 milliseconds, whatever has happened before;
  no socket is made at that moment and the transcript is untouched.  Starting with no timer
  pending, \<open>n\<close> rounds of the socket in use closing and the timer firing make exactly \<open>n\<close>
  new sockets and leave no timer pending, for every \<open>n\<close>; and when the newest socket then
  opens, the page is marked connected and a frame that arrives on it is handled by
  \<^verbatim>\<open>onmessage\<close>.  The same holds for the streaming page.
\<close>

theorem close_schedules_one_retry:
  fixes s :: session and t :: "turn page"
  shows
  "(k < length (sockets s) \<longrightarrow>
      \<not> wsConnected (dispatch now k Ev_close s)
      \<and> timers (dispatch now k Ev_close s) =
          timers s @ [\<lparr>callback = InitWebSocket, delay = 3000\<rparr>]
      \<and> length (sockets (dispatch now k Ev_close s)) = length (sockets s)
      \<and> messages (dispatch now k Ev_close s) = messages s)
   \<and> (timers s = [] \<and> sockets s \<noteq> [] \<longrightarrow>
      length (sockets (reconnects now n s)) = length (sockets s) + n
      \<and> timers (reconnects now n s) = []
      \<and> messages (reconnects now n s) = messages s
      \<and> wsConnected (dispatch now (length (sockets s) + n - 1) Ev_open (reconnects now n s))
      \<and> dispatch now (length (sockets s) + n - 1) (Ev_message d)
            (dispatch now (length (sockets s) + n - 1) Ev_open (reconnects now n s)) =
          onmessage now (dispatch now (length (sockets s) + n - 1) Ev_open (reconnects now n s)) d)
   \<and> (j < length (sockets t) \<longrightarrow>
      \<not> wsConnected (dispatch_inc j Ev_close t)
      \<and> timers (dispatch_inc j Ev_close t) =
          timers t @ [\<lparr>callback = InitWebSocket, delay = 3000\<rparr>]
      \<and> length (sockets (dispatch_inc j Ev_close t)) = length (sockets t)
      \<and> messages (dispatch_inc j Ev_close t) = messages t)
   \<and> (timers t = [] \<and> sockets t \<noteq> [] \<longrightarrow>
      length (sockets (reconnects_inc n t)) = length (sockets t) + n
      \<and> timers (reconnects_inc n t) = []
      \<and> messages (reconnects_inc n t) = messages t
      \<and> wsConnected (dispatch_inc (length (sockets t) + n - 1) Ev_open (reconnects_inc n t))
      \<and> dispatch_inc (length (sockets t) + n - 1) (Ev_message d)
            (dispatch_inc (length (sockets t) + n - 1) Ev_open (reconnects_inc n t)) =
          snd (onmessage_inc (dispatch_inc (length (sockets t) + n - 1) Ev_open (reconnects_inc n t)) d))"
proof (intro conjI impI)
  assume k: "k < length (sockets s)"
  show "\<not> wsConnected (dispatch now k Ev_close s)"
    and "timers (dispatch now k Ev_close s) = timers s @ [\<lparr>callback = InitWebSocket, delay = 3000\<rparr>]"
    and "length (sockets (dispatch now k Ev_close s)) = length (sockets s)"
    and "messages (dispatch now k Ev_close s) = messages s"
    by (rule close_event [OF k])+
next
  assume a: "timers s = [] \<and> sockets s \<noteq> []"
  then have r: "length (sockets (reconnects now n s)) = length (sockets s) + n"
    "timers (reconnects now n s) = []" "messages (reconnects now n s) = messages s"
    using reconnects_sockets [of s now n] by simp_all
  show "length (sockets (reconnects now n s)) = length (sockets s) + n"
    and "timers (reconnects now n s) = []" and "messages (reconnects now n s) = messages s"
    by (rule r)+
  have k: "length (sockets s) + n - 1 < length (sockets (reconnects now n s))"
    using a r(1) by (cases "sockets s") simp_all
  show "wsConnected (dispatch now (length (sockets s) + n - 1) Ev_open (reconnects now n s))"
    and "dispatch now (length (sockets s) + n - 1) (Ev_message d)
            (dispatch now (length (sockets s) + n - 1) Ev_open (reconnects now n s)) =
          onmessage now (dispatch now (length (sockets s) + n - 1) Ev_open (reconnects now n s)) d"
    by (rule open_then_message [OF k])+
next
  assume j: "j < length (sockets t)"
  show "\<not> wsConnected (dispatch_inc j Ev_close t)"
    and "timers (dispatch_inc j Ev_close t) = timers t @ [\<lparr>callback = InitWebSocket, delay = 3000\<rparr>]"
    and "length (sockets (dispatch_inc j Ev_close t)) = length (sockets t)"
    and "messages (dispatch_inc j Ev_close t) = messages t"
    by (rule close_event_inc [OF j])+
next
  assume a: "timers t = [] \<and> sockets t \<noteq> []"
  then have r: "length (sockets (reconnects_inc n t)) = length (sockets t) + n"
    "timers (reconnects_inc n t) = []" "messages (reconnects_inc n t) = messages t"
    using reconnects_inc_sockets [of t n] by simp_all
  show "length (sockets (reconnects_inc n t)) = length (sockets t) + n"
    and "timers (reconnects_inc n t) = []" and "messages (reconnects_inc n t) = messages t"
    by (rule r)+
  have k: "length (sockets t) + n - 1 < length (sockets (reconnects_inc n t))"
    using a r(1) by (cases "sockets t") simp_all
  show "wsConnected (dispatch_inc (length (sockets t) + n - 1) Ev_open (reconnects_inc n t))"
    and "dispatch_inc (length (sockets t) + n - 1) (Ev_message d)
            (dispatch_inc (length (sockets t) + n - 1) Ev_open (reconnects_inc n t)) =
          snd (onmessage_inc (dispatch_inc (length (sockets t) + n - 1) Ev_open (reconnects_inc n t)) d)"
    by (rule open_then_message_inc [OF k])+
qed

lemma online_eval:
  "timers online = []" "sockets online = [\<lparr>readyState = OPEN, sent = []\<rparr>]"
  "timers online_inc = []" "sockets online_inc = [\<lparr>readyState = OPEN, sent = []\<rparr>]"
  by (simp_all add: online_def online_inc_def dispatch_def dispatch_inc_def initWebSocket_def
        initial_def set_readyState_def onopen_def onopen_inc_def)

text \<open>
  The theorem at the page whose first socket is open: the socket closes, and three rounds
  of closing and waiting make the second, third and fourth socket.
\<close>

theorem close_schedules_one_retry_witness:
  "0 < length (sockets online)
   \<and> \<not> wsConnected (dispatch demo_now 0 Ev_close online)
   \<and> timers (dispatch demo_now 0 Ev_close online) = [\<lparr>callback = InitWebSocket, delay = 3000\<rparr>]
   \<and> timers online = [] \<and> sockets online \<noteq> []
   \<and> length (sockets (reconnects demo_now 3 online)) = 4
   \<and> wsConnected (dispatch demo_now 3 Ev_open (reconnects demo_now 3 online))
   \<and> 0 < length (sockets online_inc)
   \<and> timers (dispatch_inc 0 Ev_close online_inc) = [\<lparr>callback = InitWebSocket, delay = 3000\<rparr>]
   \<and> timers online_inc = [] \<and> sockets online_inc \<noteq> []
   \<and> length (sockets (reconnects_inc 3 online_inc)) = 4"
proof -
  note t = close_schedules_one_retry [where s = online and t = online_inc
      and k = 0 and j = 0 and n = 3 and now = demo_now]
  have h: "0 < length (sockets online)" "timers online = []"
    "sockets online \<noteq> []" "0 < length (sockets online_inc)"
    "timers online_inc = []" "sockets online_inc \<noteq> []"
    by (simp_all add: online_eval)
  have a: "\<not> wsConnected (dispatch demo_now 0 Ev_close online)"
    "timers (dispatch demo_now 0 Ev_close online) = timers online @ [\<lparr>callback = InitWebSocket, delay = 3000\<rparr>]"
    using t h(1) by blast+
  have b: "length (sockets (reconnects demo_now 3 online)) = length (sockets online) + 3"
    "wsConnected (dispatch demo_now (length (sockets online) + 3 - 1) Ev_open (reconnects demo_now 3 online))"
    using t h(2,3) by blast+
  have c: "timers (dispatch_inc 0 Ev_close online_inc) = timers online_inc @ [\<lparr>callback = InitWebSocket, delay = 3000\<rparr>]"
    using t h(4) by blast
  have d: "length (sockets (reconnects_inc 3 online_inc)) = length (sockets online_inc) + 3"
    using t h(5,6) by blast
  show ?thesis
    using h a b c d by (simp add: online_eval)
qed

section \<open>Frames that are not JSON\<close>

lemma onmessage_Invalid:
  "onmessage now s (Invalid txt) = s\<lparr>console := console s @ [Error_parse_failed SyntaxError (Invalid txt)]\<rparr>"
  by (simp add: onmessage_def onmessage_try_def JSON_parse_def)

lemma onmessage_inc_Invalid: "onmessage_inc s (Invalid txt) = (Threw SyntaxError, s)"
  by (simp add: onmessage_inc_def JSON_parse_def)

text \<open>
  C4 holds for App.vue and fails for the streaming page.  For a text that is not JSON the
  handler of App.vue catches the exception of \<^verbatim>\<open>JSON.parse\<close>, writes it to the console and
  leaves the rest of the page as it was.  The handler of the streaming page has no \<^verbatim>\<open>try\<close>: the
  exception leaves it.  So does the TypeError of a frame with status \<^verbatim>\<open>tool_calling\<close> and no
  \<^verbatim>\<open>tool_calls\<close>, after the handler has already pushed a message.
\<close>

theorem malformed_frame_escapes:
  "onmessage now s (Invalid txt) =
     s\<lparr>console := console s @ [Error_parse_failed SyntaxError (Invalid txt)]\<rparr>
   \<and> onmessage_inc t (Invalid txt) = (Threw SyntaxError, t)
   \<and> onmessage_inc initial (Valid (no_fields\<lparr>f_status := Some ''tool_calling''\<rparr>)) =
       (Threw TypeError, initial\<lparr>messages := [fresh_turn]\<rparr>)"
proof -
  have "f_type (no_fields\<lparr>f_status := Some ''tool_calling''\<rparr>) \<noteq> Some ''done''"
    by (simp add: no_fields_def)
  then have "onmessage_inc initial (Valid (no_fields\<lparr>f_status := Some ''tool_calling''\<rparr>)) =
       (Threw TypeError, initial\<lparr>messages := [fresh_turn]\<rparr>)"
    by (simp add: onmessage_inc_fields no_fields_def initial_def closed_turns_def open_turn_def
          needs_turn_def add_content_def add_thought_def delta_def fresh_turn_def)
  then show ?thesis
    by (simp add: onmessage_Invalid onmessage_inc_Invalid)
qed

section \<open>Which messages a frame can change\<close>

lemma update_found_nth:
  "i < length xs \<Longrightarrow>
   update_found p u xs ! i = xs ! i \<or> (p (xs ! i) \<and> update_found p u xs ! i = u (xs ! i))"
proof (induction xs arbitrary: i)
  case Nil
  then show ?case by simp
next
  case (Cons x xs)
  show ?case
  proof (cases i)
    case 0
    then show ?thesis by simp
  next
    case (Suc k)
    then have "k < length xs" using Cons.prems by simp
    from Cons.IH [OF this] show ?thesis using Suc by auto
  qed
qed

lemma same_but_result_refl [simp]: "same_but_result m m"
  by (simp add: same_but_result_def)

lemma same_but_result_store [simp]: "same_but_result m (store_result r m)"
  by (simp add: same_but_result_def store_result_def Let_def)

lemma same_but_result_trans:
  assumes "same_but_result a b" and "same_but_result b c"
  shows "same_but_result a c"
proof -
  have b: "b = a\<lparr>result := result b, is_error := is_error b, file_paths := file_paths b\<rparr>"
    using assms(1) by (simp add: same_but_result_def)
  have c: "c = b\<lparr>result := result c, is_error := is_error c, file_paths := file_paths c\<rparr>"
    using assms(2) by (simp add: same_but_result_def)
  have "c = a\<lparr>result := result c, is_error := is_error c, file_paths := file_paths c\<rparr>"
    by (subst c, subst b) simp
  then show ?thesis by (simp add: same_but_result_def)
qed

lemma store_results_nth:
  assumes "i < length xs"
  shows "same_but_result (xs ! i) (store_results xs rs ! i)
       \<and> ((\<forall>r\<in>set rs. \<not> answers r (xs ! i)) \<longrightarrow> store_results xs rs ! i = xs ! i)"
  using assms
proof (induction rs arbitrary: xs)
  case Nil
  then show ?case by simp
next
  case (Cons r rs)
  let ?xs1 = "update_found (answers r) (store_result r) xs"
  have i1: "i < length ?xs1" using Cons.prems by simp
  note ih = Cons.IH [OF i1]
  have step: "?xs1 ! i = xs ! i \<or> (answers r (xs ! i) \<and> ?xs1 ! i = store_result r (xs ! i))"
    by (rule update_found_nth [OF Cons.prems])
  have sb: "same_but_result (xs ! i) (?xs1 ! i)"
    using step by auto
  have an: "answers r' (?xs1 ! i) = answers r' (xs ! i)" for r'
    using step by auto
  have "same_but_result (xs ! i) (store_results ?xs1 rs ! i)"
    using same_but_result_trans [OF sb] ih by blast
  moreover have "store_results ?xs1 rs ! i = xs ! i"
    if "\<forall>r'\<in>set (r # rs). \<not> answers r' (xs ! i)"
  proof -
    have "\<not> answers r (xs ! i)" using that by simp
    then have "?xs1 ! i = xs ! i" using step by blast
    moreover have "\<forall>r'\<in>set rs. \<not> answers r' (?xs1 ! i)"
      using that an by simp
    ultimately show ?thesis using ih by simp
  qed
  ultimately show ?case
    by (simp add: store_results_Cons)
qed

lemma onmessage_keeps:
  fixes s :: session
  assumes "i < length (messages s)"
  shows "i < length (messages (onmessage now s (Valid data)))
       \<and> same_but_result (messages s ! i) (messages (onmessage now s (Valid data)) ! i)
       \<and> ((\<forall>r\<in>set (resolved data). \<not> answers r (messages s ! i)) \<longrightarrow>
            messages (onmessage now s (Valid data)) ! i = messages s ! i)"
proof (cases "returns_early data")
  case True
  then show ?thesis
    using assms unfolding onmessage_Valid returns_early_def by (auto simp: nth_append)
next
  case False
  let ?T = "text_turn Thought now (messageIdCounter s) (f_thought data)"
  let ?TC = "tool_turns now (messageIdCounter s + length ?T) (requested data)"
  let ?xs = "messages s @ ?T @ ?TC"
  have i: "i < length ?xs" using assms by simp
  have x: "?xs ! i = messages s ! i" using assms by (simp add: nth_append)
  note n = store_results_nth [OF i, of "resolved data"]
  have m: "messages (onmessage now s (Valid data)) ! i = store_results ?xs (resolved data) ! i"
    unfolding onmessage_fields [OF False] using i by (simp add: nth_append)
  have l: "i < length (messages (onmessage now s (Valid data)))"
    unfolding onmessage_fields [OF False] using assms by simp
  show ?thesis
    unfolding m using n l unfolding x by simp
qed

lemma onmessage_inc_keeps:
  fixes t :: "turn page"
  shows "take (length (closed_turns (messages t))) (messages (snd (onmessage_inc t d))) =
           closed_turns (messages t)
       \<and> length (messages t) \<le> length (messages (snd (onmessage_inc t d)))"
proof -
  have same: "take (length (closed_turns ms)) ms = closed_turns ms" for ms :: "turn list"
    by (simp add: closed_turns_def butlast_conv_take)
  have grown: "length ms \<le> length (closed_turns ms @ [m])" for ms :: "turn list" and m
    by (simp add: closed_turns_def needs_turn_def)
  show ?thesis
  proof (cases d)
    case (Invalid raw)
    then show ?thesis by (simp add: onmessage_inc_Invalid same)
  next
    case (Valid data)
    show ?thesis
    proof (cases "f_type data = Some ''done''")
      case True
      then show ?thesis
        unfolding Valid by (simp add: onmessage_inc_def JSON_parse_def same)
    next
      case False
      have "\<exists>m. messages (snd (onmessage_inc t (Valid data))) = closed_turns (messages t) @ [m]"
        unfolding onmessage_inc_fields [OF False]
        by (simp split: option.splits)
      then obtain m where
        m: "messages (snd (onmessage_inc t (Valid data))) = closed_turns (messages t) @ [m]" ..
      show ?thesis
        unfolding Valid m using grown [of "messages t" m] by simp
    qed
  qed
qed

lemma onmessage_keeps_any:
  fixes s :: session
  assumes "i < length (messages s)"
  shows "i < length (messages (onmessage now s d))
       \<and> same_but_result (messages s ! i) (messages (onmessage now s d) ! i)
       \<and> ((\<forall>r\<in>set (carried d). \<not> answers r (messages s ! i)) \<longrightarrow>
            messages (onmessage now s d) ! i = messages s ! i)"
proof (cases d)
  case (Invalid raw)
  then show ?thesis using assms by (simp add: onmessage_Invalid)
next
  case (Valid data)
  show ?thesis
    unfolding Valid using onmessage_keeps [OF assms, of now data] by (simp add: carried_def)
qed

text \<open>
  C3 (as amended).  In incremental mode a frame leaves every message but an open last one
  as and where it is: the transcript without its last message, or the whole transcript
  when it is empty or ends with a user message, is a prefix of the transcript after the
  frame.  In discrete mode a frame removes and reorders nothing, and the message at a
  position differs afterwards at most in \<^verbatim>\<open>result\<close>, \<^verbatim>\<open>is_error\<close> and \<^verbatim>\<open>file_paths\<close>; it is unchanged
  if it is not a tool request, and if no tool result of the frame has its call id.  There is
  no closing of messages in discrete mode: where the message stands, before or after a
  user message, plays no part.
\<close>

theorem frames_change_open_turn_only:
  fixes s :: session and t :: "turn page"
  shows
  "take (length (closed_turns (messages t))) (messages (snd (onmessage_inc t d))) =
     closed_turns (messages t)
   \<and> length (messages t) \<le> length (messages (snd (onmessage_inc t d)))
   \<and> (i < length (messages s) \<longrightarrow>
        i < length (messages (onmessage now s d))
        \<and> same_but_result (messages s ! i) (messages (onmessage now s d) ! i)
        \<and> (msg_type (messages s ! i) \<noteq> Tool_request \<longrightarrow>
             messages (onmessage now s d) ! i = messages s ! i)
        \<and> ((\<forall>r\<in>set (carried d). \<not> answers r (messages s ! i)) \<longrightarrow>
             messages (onmessage now s d) ! i = messages s ! i))"
proof (intro conjI impI)
  show "take (length (closed_turns (messages t))) (messages (snd (onmessage_inc t d))) =
     closed_turns (messages t)"
    and "length (messages t) \<le> length (messages (snd (onmessage_inc t d)))"
    using onmessage_inc_keeps [of t d] by simp_all
next
  assume i: "i < length (messages s)"
  note k = onmessage_keeps_any [OF i, of now d]
  show "i < length (messages (onmessage now s d))"
    and "same_but_result (messages s ! i) (messages (onmessage now s d) ! i)"
    using k by simp_all
  show "messages (onmessage now s d) ! i = messages s ! i"
    if "msg_type (messages s ! i) \<noteq> Tool_request"
    using k that by (simp add: answers_def)
  show "messages (onmessage now s d) ! i = messages s ! i"
    if "\<forall>r\<in>set (carried d). \<not> answers r (messages s ! i)"
    using k that by simp
qed

lemma onmessage_done:
  "f_type data = Some ''done'' \<Longrightarrow> onmessage now s (Valid data) = s\<lparr>loading := False\<rparr>"
  by (simp add: onmessage_Valid)

lemma second_question_eval:
  "messages second_question =
     [fst (createUserMessage demo_now (initial\<lparr>messageIdCounter := 0\<rparr>) ''q1''),
      hd (tool_turns demo_now 1 [mixer_call]),
      fst (createUserMessage demo_now (initial\<lparr>messageIdCounter := 2\<rparr>) ''q2'')]"
proof -
  have n: "\<not> returns_early (no_fields\<lparr>f_status := Some ''tool_calling'', f_tool_calls := Some [mixer_call]\<rparr>)"
    by (simp add: returns_early_def no_fields_def)
  have d: "f_type (no_fields\<lparr>f_type := Some ''done''\<rparr>) = Some ''done''"
    by (simp add: no_fields_def)
  show ?thesis
    unfolding second_question_def onmessage_done [OF d] onmessage_fields [OF n]
    by (simp add: say_def sendMessage_cases online_def dispatch_def set_readyState_def
          onopen_def initWebSocket_def initial_def createUserMessage_def text_turn_def
          requested_def resolved_def no_fields_def numeral_2_eq_2)
qed

lemma late_result:
  "carried (Valid (result_frame [answer ''t1'' ''late''])) = [answer ''t1'' ''late'']"
  "\<not> returns_early (result_frame [answer ''t1'' ''late''])"
  "f_status (result_frame [answer ''t1'' ''late'']) = Some ''tool_executed''"
  "f_tool_results (result_frame [answer ''t1'' ''late'']) = Some [answer ''t1'' ''late'']"
  by (simp_all add: carried_def resolved_def result_frame_def no_fields_def returns_early_def)

text \<open>
  The theorem at the page with the two questions and the frame with a late result for \<^verbatim>\<open>t1\<close>:
  the first question, a user message, is left as it is; and at the streaming page after a
  question has been sent, which the next frame leaves whole.
\<close>

theorem frames_change_open_turn_only_witness:
  "0 < length (messages second_question)
   \<and> msg_type (messages second_question ! 0) \<noteq> Tool_request
   \<and> messages (onmessage demo_now second_question (Valid (result_frame [answer ''t1'' ''late''])) ) ! 0
       = messages second_question ! 0
   \<and> take 1 (messages (snd (onmessage_inc (say_inc ''q1'' online_inc) (Valid (content_delta ''Hel'')))))
       = messages (say_inc ''q1'' online_inc)"
proof -
  note t = frames_change_open_turn_only [where s = second_question and i = 0 and now = demo_now
      and d = "Valid (result_frame [answer ''t1'' ''late''])" and t = "say_inc ''q1'' online_inc"]
  have h: "0 < length (messages second_question)"
    "msg_type (messages second_question ! 0) \<noteq> Tool_request"
    by (simp_all add: second_question_eval createUserMessage_def)
  have a: "messages (onmessage demo_now second_question (Valid (result_frame [answer ''t1'' ''late'']))) ! 0
       = messages second_question ! 0"
    using t h by blast
  have m: "messages (say_inc ''q1'' online_inc) =
      [\<lparr>role = User_role, t_content = ''q1'', thought = None, tool_calls = None\<rparr>]"
    by (simp add: say_inc_def sendMessage_inc_cases online_inc_def dispatch_inc_def
          set_readyState_def onopen_inc_def initWebSocket_def initial_def)
  have c: "closed_turns (messages (say_inc ''q1'' online_inc)) = messages (say_inc ''q1'' online_inc)"
    unfolding m by (simp add: closed_turns_def needs_turn_def)
  note t' = frames_change_open_turn_only [where s = second_question and i = 0 and now = demo_now
      and d = "Valid (content_delta ''Hel'')" and t = "say_inc ''q1'' online_inc"]
  have "take (length (closed_turns (messages (say_inc ''q1'' online_inc))))
          (messages (snd (onmessage_inc (say_inc ''q1'' online_inc) (Valid (content_delta ''Hel''))))) =
        closed_turns (messages (say_inc ''q1'' online_inc))"
    using t' by blast
  then have b: "take 1 (messages (snd (onmessage_inc (say_inc ''q1'' online_inc) (Valid (content_delta ''Hel'')))))
       = messages (say_inc ''q1'' online_inc)"
    unfolding c unfolding m by simp
  show ?thesis
    using h a b by simp
qed

text \<open>
  C3 as stated fails in discrete mode: the tool request \<^verbatim>\<open>t1\<close> stands before the second user
  message, and the result that arrives after that user message is stored on it.
\<close>

theorem closed_turn_mutated_counterexample:
  "map msg_type (messages second_question) = [User, Tool_request, User]
   \<and> result (messages second_question ! 1) = JStr []
   \<and> result (messages (onmessage demo_now second_question
         (Valid (result_frame [answer ''t1'' ''late'']))) ! 1) = JStr ''late''"
proof -
  have a: "map msg_type (messages second_question) = [User, Tool_request, User]"
    "result (messages second_question ! 1) = JStr []"
    by (simp_all add: second_question_eval createUserMessage_def)
  have i: "1 < length (messages second_question)"
    "answers (answer ''t1'' ''late'') (messages second_question ! 1)"
    "\<forall>j<1. \<not> answers (answer ''t1'' ''late'') (messages second_question ! j)"
    by (simp_all add: second_question_eval createUserMessage_def answers_def answer_def
          mixer_call_def)
  have "messages (onmessage demo_now second_question (Valid (result_frame [answer ''t1'' ''late'']))) ! 1
      = store_result (answer ''t1'' ''late'') (messages second_question ! 1)"
    unfolding one_result_stored [OF late_result(2,3,4) i]
    using i(1) by (simp add: nth_append)
  then show ?thesis
    using a by (simp add: answer_def)
qed

section \<open>The order of the fields\<close>

lemma onmessage_file_download:
  assumes "f_type data = Some ''file_download''" and "truthy (f_file_paths data)"
  shows "onmessage now s (Valid data) =
     s\<lparr>messages := messages s @
             [\<lparr>msg_id = mk_id ''file'' now (messageIdCounter s), msg_type = File_download,
               content = None, call_id = Undefined, function_name = Undefined,
               args = Undefined, result = Undefined, file_paths = f_file_paths data,
               is_error = Undefined, collapsed = None\<rparr>],
          messageIdCounter := Suc (messageIdCounter s)\<rparr>"
  using assms by (simp add: onmessage_Valid)

lemma onmessage_inc_done:
  "f_type data = Some ''done'' \<Longrightarrow> onmessage_inc t (Valid data) = (Returned, t\<lparr>loading := False\<rparr>)"
  by (simp add: onmessage_inc_def JSON_parse_def)

text \<open>
  C2 (as amended).  Discrete mode: a frame of type \<^verbatim>\<open>done\<close> only clears the loading flag, and a
  frame of type \<^verbatim>\<open>file_download\<close> with \<^verbatim>\<open>file_paths\<close> only appends a file message, whatever other
  fields they carry.  Every other frame has the effect of its thought, then of its tool
  calls if the status is \<^verbatim>\<open>tool_calling\<close>, then of its tool results if the status is
  \<^verbatim>\<open>tool_executed\<close>, then of its content, each a function of that field alone: the transcript
  afterwards is the old one, the thought message, the tool request messages, with the
  results stored, and then the assistant message.  Incremental mode: a frame of type \<^verbatim>\<open>done\<close>
  only clears the loading flag; every other frame adds to the open message its thought,
  then its content, then its tool calls if the status is \<^verbatim>\<open>tool_calling\<close>, and then stores its
  tool results if the status is \<^verbatim>\<open>tool_executed\<close>.
\<close>

theorem fields_applied_in_order:
  fixes s :: session and t :: "turn page"
  shows
  "(f_type data = Some ''done'' \<longrightarrow> onmessage now s (Valid data) = s\<lparr>loading := False\<rparr>)
   \<and> (f_type data = Some ''file_download'' \<and> truthy (f_file_paths data) \<longrightarrow>
        onmessage now s (Valid data) =
          s\<lparr>messages := messages s @
               [\<lparr>msg_id = mk_id ''file'' now (messageIdCounter s), msg_type = File_download,
                 content = None, call_id = Undefined, function_name = Undefined,
                 args = Undefined, result = Undefined, file_paths = f_file_paths data,
                 is_error = Undefined, collapsed = None\<rparr>],
             messageIdCounter := Suc (messageIdCounter s)\<rparr>)
   \<and> (\<not> returns_early data \<longrightarrow>
        onmessage now s (Valid data) =
          content_effect now (f_content data)
            (tool_executed_effect (f_status data) (f_tool_results data)
              (tool_calling_effect now (f_status data) (f_tool_calls data)
                (thought_effect now (f_thought data) s)))
        \<and> messages (onmessage now s (Valid data)) =
            store_results
              (messages s
               @ text_turn Thought now (messageIdCounter s) (f_thought data)
               @ tool_turns now
                   (messageIdCounter s
                    + length (text_turn Thought now (messageIdCounter s) (f_thought data)))
                   (requested data))
              (resolved data)
            @ text_turn Assistant now
                (messageIdCounter s
                 + length (text_turn Thought now (messageIdCounter s) (f_thought data))
                 + length (requested data))
                (f_content data))
   \<and> (f_type data = Some ''done'' \<longrightarrow>
        onmessage_inc t (Valid data) = (Returned, t\<lparr>loading := False\<rparr>))
   \<and> (f_type data \<noteq> Some ''done'' \<longrightarrow>
        onmessage_inc t (Valid data) =
          (if f_status data = Some ''tool_calling'' then
             (case (tool_calls (add_content (f_content data)
                       (add_thought (f_thought data) (open_turn (messages t)))),
                    f_tool_calls data) of
                (Some tools, Some tcs) \<Rightarrow>
                  (Returned,
                   t\<lparr>messages := closed_turns (messages t) @
                      [(add_content (f_content data)
                         (add_thought (f_thought data) (open_turn (messages t))))
                       \<lparr>tool_calls := Some (tools @ map as_tool tcs)\<rparr>]\<rparr>)
              | _ \<Rightarrow>
                  (Threw TypeError,
                   t\<lparr>messages := closed_turns (messages t) @
                      [add_content (f_content data)
                         (add_thought (f_thought data) (open_turn (messages t)))]\<rparr>))
           else if f_status data = Some ''tool_executed'' then
             (case (tool_calls (add_content (f_content data)
                       (add_thought (f_thought data) (open_turn (messages t)))),
                    f_tool_results data) of
                (Some tools, Some trs) \<Rightarrow>
                  (Returned,
                   t\<lparr>messages := closed_turns (messages t) @
                      [(add_content (f_content data)
                         (add_thought (f_thought data) (open_turn (messages t))))
                       \<lparr>tool_calls := Some (foldl find_tool_step tools trs)\<rparr>]\<rparr>)
              | _ \<Rightarrow>
                  (Threw TypeError,
                   t\<lparr>messages := closed_turns (messages t) @
                      [add_content (f_content data)
                         (add_thought (f_thought data) (open_turn (messages t)))]\<rparr>))
           else
             (Returned,
              t\<lparr>messages := closed_turns (messages t) @
                 [add_content (f_content data)
                    (add_thought (f_thought data) (open_turn (messages t)))]\<rparr>)))"
proof (intro conjI impI)
  assume "f_type data = Some ''done''"
  then show "onmessage now s (Valid data) = s\<lparr>loading := False\<rparr>"
    by (rule onmessage_done)
next
  assume "f_type data = Some ''file_download'' \<and> truthy (f_file_paths data)"
  then show "onmessage now s (Valid data) =
          s\<lparr>messages := messages s @
               [\<lparr>msg_id = mk_id ''file'' now (messageIdCounter s), msg_type = File_download,
                 content = None, call_id = Undefined, function_name = Undefined,
                 args = Undefined, result = Undefined, file_paths = f_file_paths data,
                 is_error = Undefined, collapsed = None\<rparr>],
             messageIdCounter := Suc (messageIdCounter s)\<rparr>"
    by (simp add: onmessage_file_download)
next
  assume n: "\<not> returns_early data"
  then show "onmessage now s (Valid data) =
          content_effect now (f_content data)
            (tool_executed_effect (f_status data) (f_tool_results data)
              (tool_calling_effect now (f_status data) (f_tool_calls data)
                (thought_effect now (f_thought data) s)))"
    unfolding onmessage_Valid returns_early_def by auto
  show "messages (onmessage now s (Valid data)) =
            store_results
              (messages s
               @ text_turn Thought now (messageIdCounter s) (f_thought data)
               @ tool_turns now
                   (messageIdCounter s
                    + length (text_turn Thought now (messageIdCounter s) (f_thought data)))
                   (requested data))
              (resolved data)
            @ text_turn Assistant now
                (messageIdCounter s
                 + length (text_turn Thought now (messageIdCounter s) (f_thought data))
                 + length (requested data))
                (f_content data)"
    unfolding onmessage_fields [OF n] by simp
next
  assume "f_type data = Some ''done''"
  then show "onmessage_inc t (Valid data) = (Returned, t\<lparr>loading := False\<rparr>)"
    by (rule onmessage_inc_done)
next
  assume "f_type data \<noteq> Some ''done''"
  then show "onmessage_inc t (Valid data) =
          (if f_status data = Some ''tool_calling'' then
             (case (tool_calls (add_content (f_content data)
                       (add_thought (f_thought data) (open_turn (messages t)))),
                    f_tool_calls data) of
                (Some tools, Some tcs) \<Rightarrow>
                  (Returned,
                   t\<lparr>messages := closed_turns (messages t) @
                      [(add_content (f_content data)
                         (add_thought (f_thought data) (open_turn (messages t))))
                       \<lparr>tool_calls := Some (tools @ map as_tool tcs)\<rparr>]\<rparr>)
              | _ \<Rightarrow>
                  (Threw TypeError,
                   t\<lparr>messages := closed_turns (messages t) @
                      [add_content (f_content data)
                         (add_thought (f_thought data) (open_turn (messages t)))]\<rparr>))
           else if f_status data = Some ''tool_executed'' then
             (case (tool_calls (add_content (f_content data)
                       (add_thought (f_thought data) (open_turn (messages t)))),
                    f_tool_results data) of
                (Some tools, Some trs) \<Rightarrow>
                  (Returned,
                   t\<lparr>messages := closed_turns (messages t) @
                      [(add_content (f_content data)
                         (add_thought (f_thought data) (open_turn (messages t))))
                       \<lparr>tool_calls := Some (foldl find_tool_step tools trs)\<rparr>]\<rparr>)
              | _ \<Rightarrow>
                  (Threw TypeError,
                   t\<lparr>messages := closed_turns (messages t) @
                      [add_content (f_content data)
                         (add_thought (f_thought data) (open_turn (messages t)))]\<rparr>))
           else
             (Returned,
              t\<lparr>messages := closed_turns (messages t) @
                 [add_content (f_content data)
                    (add_thought (f_thought data) (open_turn (messages t)))]\<rparr>))"
    by (rule onmessage_inc_fields)
qed

text \<open>
  The theorem at the first page and a frame with a thought, a tool call and a reply, which
  leaves a thought message, a tool request and an assistant message in this order; and at
  a frame of type \<^verbatim>\<open>done\<close>.
\<close>

theorem fields_applied_in_order_witness:
  "\<not> returns_early (no_fields\<lparr>f_thought := Some ''plan'', f_content := Some ''answer'',
        f_status := Some ''tool_calling'', f_tool_calls := Some [mixer_call]\<rparr>)
   \<and> map msg_type (messages (onmessage demo_now initial
         (Valid (no_fields\<lparr>f_thought := Some ''plan'', f_content := Some ''answer'',
            f_status := Some ''tool_calling'', f_tool_calls := Some [mixer_call]\<rparr>)))) =
       [Thought, Tool_request, Assistant]
   \<and> f_type (no_fields\<lparr>f_type := Some ''done''\<rparr>) = Some ''done''
   \<and> onmessage demo_now two_turns (Valid (no_fields\<lparr>f_type := Some ''done''\<rparr>)) =
       two_turns\<lparr>loading := False\<rparr>
   \<and> onmessage_inc initial (Valid (no_fields\<lparr>f_type := Some ''done''\<rparr>)) =
       (Returned, initial\<lparr>loading := False\<rparr>)"
proof -
  let ?full = "no_fields\<lparr>f_thought := Some ''plan'', f_content := Some ''answer'',
        f_status := Some ''tool_calling'', f_tool_calls := Some [mixer_call]\<rparr>"
  let ?done = "no_fields\<lparr>f_type := Some ''done''\<rparr>"
  have n: "\<not> returns_early ?full"
    by (simp add: returns_early_def no_fields_def)
  have d: "f_type ?done = Some ''done''"
    by (simp add: no_fields_def)
  note t1 = fields_applied_in_order [where data = ?full and s = initial and now = demo_now]
  note t2 = fields_applied_in_order [where data = ?done and s = two_turns and now = demo_now
      and t = initial]
  have "messages (onmessage demo_now initial (Valid ?full)) =
            store_results
              (messages (initial :: session)
               @ text_turn Thought demo_now (messageIdCounter (initial :: session)) (f_thought ?full)
               @ tool_turns demo_now
                   (messageIdCounter (initial :: session)
                    + length (text_turn Thought demo_now (messageIdCounter (initial :: session)) (f_thought ?full)))
                   (requested ?full))
              (resolved ?full)
            @ text_turn Assistant demo_now
                (messageIdCounter (initial :: session)
                 + length (text_turn Thought demo_now (messageIdCounter (initial :: session)) (f_thought ?full))
                 + length (requested ?full))
                (f_content ?full)"
    using t1 n by blast
  then have a: "map msg_type (messages (onmessage demo_now initial (Valid ?full))) =
       [Thought, Tool_request, Assistant]"
    by (simp add: initial_def no_fields_def text_turn_def has_text_def is_ws_def requested_def
          resolved_def)
  have b: "onmessage demo_now two_turns (Valid ?done) = two_turns\<lparr>loading := False\<rparr>"
    using t2 d by blast
  have c: "onmessage_inc initial (Valid ?done) = (Returned, initial\<lparr>loading := False\<rparr>)"
    using t2 d by blast
  show ?thesis
    using n a d b c by (intro conjI)
qed

text \<open>
  C2 as stated fails: the type \<^verbatim>\<open>done\<close> is tested first, not last, and suppresses the thought
  of the same frame, in both versions of the page; without it the thought is applied.
\<close>

theorem done_suppresses_thought_counterexample:
  "messages (onmessage demo_now initial
      (Valid (no_fields\<lparr>f_type := Some ''done'', f_thought := Some ''plan''\<rparr>))) = []
   \<and> map content (messages (onmessage demo_now initial
      (Valid (no_fields\<lparr>f_thought := Some ''plan''\<rparr>)))) = [Some ''plan'']
   \<and> messages (snd (onmessage_inc initial
      (Valid (no_fields\<lparr>f_type := Some ''done'', f_thought := Some ''plan''\<rparr>)))) = []
   \<and> map thought (messages (snd (onmessage_inc initial
      (Valid (no_fields\<lparr>f_thought := Some ''plan''\<rparr>))))) = [Some ''plan'']"
proof -
  have d: "f_type (no_fields\<lparr>f_type := Some ''done'', f_thought := Some ''plan''\<rparr>) = Some ''done''"
    by (simp add: no_fields_def)
  have n: "\<not> returns_early (no_fields\<lparr>f_thought := Some ''plan''\<rparr>)"
    "f_type (no_fields\<lparr>f_thought := Some ''plan''\<rparr>) \<noteq> Some ''done''"
    by (simp_all add: returns_early_def no_fields_def)
  show ?thesis
    unfolding onmessage_done [OF d] onmessage_inc_done [OF d] onmessage_fields [OF n(1)]
      onmessage_inc_fields [OF n(2)]
    by (simp add: initial_def no_fields_def text_turn_def has_text_def is_ws_def requested_def
          resolved_def closed_turns_def open_turn_def needs_turn_def fresh_turn_def
          add_content_def add_thought_def delta_def plus_assign_def)
qed

section \<open>Message identifiers are distinct\<close>

lemma digit_value: "d < 10 \<Longrightarrow> of_char (digit d) = 48 + d"
proof -
  assume "d < 10"
  then consider "d = 0" | "d = 1" | "d = 2" | "d = 3" | "d = 4" | "d = 5" | "d = 6" | "d = 7"
    | "d = 8" | "d = 9"
    by atomize_elim arith
  then show ?thesis
    by cases (simp_all add: digit_def)
qed

lemma digit_not_underscore: "d < 10 \<Longrightarrow> digit d \<noteq> CHR ''_''"
proof -
  assume "d < 10"
  then consider "d = 0" | "d = 1" | "d = 2" | "d = 3" | "d = 4" | "d = 5" | "d = 6" | "d = 7"
    | "d = 8" | "d = 9"
    by atomize_elim arith
  then show ?thesis
    by cases (simp_all add: digit_def)
qed

lemma read_nat_snoc: "read_nat (ds @ [c]) = 10 * read_nat ds + (of_char c - 48)"
  by (simp add: read_nat_def)

lemma read_show_nat: "read_nat (show_nat n) = n"
proof (induction n rule: show_nat.induct)
  case (1 n)
  show ?case
  proof (cases "n < 10")
    case True
    then show ?thesis
      by (subst show_nat.simps) (simp add: read_nat_def digit_value)
  next
    case False
    have m: "n mod 10 < 10" by simp
    have "read_nat (show_nat n) = 10 * read_nat (show_nat (n div 10)) + n mod 10"
      using False by (subst show_nat.simps) (simp add: read_nat_snoc digit_value [OF m])
    then show ?thesis
      using 1 [OF False] by simp
  qed
qed

lemma show_nat_no_underscore: "CHR ''_'' \<notin> set (show_nat n)"
proof (induction n rule: show_nat.induct)
  case (1 n)
  show ?case
  proof (cases "n < 10")
    case True
    then show ?thesis
      using digit_not_underscore [of n] by (subst show_nat.simps) auto
  next
    case False
    have m: "n mod 10 < 10" by simp
    show ?thesis
      using False 1 [OF False] digit_not_underscore [OF m]
      by (subst show_nat.simps) auto
  qed
qed

lemma serial_mk_id [simp]: "serial (mk_id p now n) = n"
proof -
  have "rev (mk_id p now n) = rev (show_nat n) @ CHR ''_'' # rev (p @ ''_'' @ show_nat (now n))"
    by (simp add: mk_id_def)
  moreover have "\<forall>c\<in>set (rev (show_nat n)). c \<noteq> CHR ''_''"
    using show_nat_no_underscore [of n] by auto
  ultimately have "takeWhile (\<lambda>c. c \<noteq> CHR ''_'') (rev (mk_id p now n)) = rev (show_nat n)"
    by (simp add: takeWhile_tail)
  then show ?thesis
    by (simp add: serial_def read_show_nat)
qed

lemma map_update_found:
  "(\<And>x. f (u x) = f x) \<Longrightarrow> map f (update_found p u xs) = map f xs"
  by (induction xs) simp_all

lemma msg_id_store_result [simp]: "msg_id (store_result r m) = msg_id m"
  by (simp add: store_result_def Let_def)

lemma map_msg_id_store_results [simp]: "map msg_id (store_results xs rs) = map msg_id xs"
proof (induction rs arbitrary: xs)
  case Nil
  show ?case by simp
next
  case (Cons r rs)
  show ?case
    by (simp add: store_results_Cons Cons.IH map_update_found)
qed

lemma serials_cong:
  assumes "map msg_id xs = map msg_id ys"
  shows "map (\<lambda>m. serial (msg_id m)) xs = map (\<lambda>m. serial (msg_id m)) ys"
proof -
  have "map serial (map msg_id xs) = map serial (map msg_id ys)"
    using assms by (rule arg_cong)
  then show ?thesis
    by (simp add: comp_def)
qed

lemma serials_text_turn:
  "map (\<lambda>m. serial (msg_id m)) (text_turn ty now n x) = [n..<n + length (text_turn ty now n x)]"
  by (simp add: text_turn_def)

lemma serials_tool_turns:
  "map (\<lambda>m. serial (msg_id m)) (tool_turns now n cs) = [n..<n + length cs]"
proof (induction cs arbitrary: n)
  case Nil
  show ?case by simp
next
  case (Cons c cs)
  have "[n..<n + length (c # cs)] = n # [Suc n..<Suc n + length cs]"
    by (subst upt_rec) simp
  then show ?case
    using Cons.IH [of "Suc n"] by simp
qed

lemma upt_join: "i \<le> j \<Longrightarrow> j \<le> k \<Longrightarrow> [i..<j] @ [j..<k] = [i..<k]"
  by (metis le_Suc_ex upt_add_eq_append)

lemma serials_onmessage:
  fixes s :: session
  shows "map (\<lambda>m. serial (msg_id m)) (messages (onmessage now s d)) =
           map (\<lambda>m. serial (msg_id m)) (messages s) @
           [messageIdCounter s..<messageIdCounter (onmessage now s d)]
         \<and> messageIdCounter s \<le> messageIdCounter (onmessage now s d)"
proof (cases d)
  case (Invalid raw)
  then show ?thesis by (simp add: onmessage_Invalid)
next
  case (Valid data)
  show ?thesis
  proof (cases "returns_early data")
    case True
    then show ?thesis
      unfolding Valid onmessage_Valid returns_early_def by auto
  next
    case False
    let ?n = "messageIdCounter s"
    let ?T = "text_turn Thought now ?n (f_thought data)"
    let ?TC = "tool_turns now (?n + length ?T) (requested data)"
    let ?A = "text_turn Assistant now (?n + length ?T + length ?TC) (f_content data)"
    let ?ser = "\<lambda>m. serial (msg_id m)"
    have "map ?ser (store_results (messages s @ ?T @ ?TC) (resolved data)) =
          map ?ser (messages s @ ?T @ ?TC)"
      by (rule serials_cong) simp
    then have "map ?ser (messages (onmessage now s (Valid data))) =
        map ?ser (messages s) @ (([?n..<?n + length ?T] @ [?n + length ?T..<?n + length ?T + length ?TC])
          @ [?n + length ?T + length ?TC..<?n + length ?T + length ?TC + length ?A])"
      unfolding onmessage_fields [OF False]
      by (simp add: serials_text_turn serials_tool_turns)
    also have "([?n..<?n + length ?T] @ [?n + length ?T..<?n + length ?T + length ?TC])
          @ [?n + length ?T + length ?TC..<?n + length ?T + length ?TC + length ?A]
        = [?n..<?n + length ?T + length ?TC + length ?A]"
      by (simp only: upt_join le_add1)
    finally show ?thesis
      unfolding Valid onmessage_fields [OF False] by simp
  qed
qed

lemma serials_perform:
  "map (\<lambda>m. serial (msg_id m)) (messages (perform now s a)) =
     map (\<lambda>m. serial (msg_id m)) (messages s) @
     [messageIdCounter s..<messageIdCounter (perform now s a)]
   \<and> messageIdCounter s \<le> messageIdCounter (perform now s a)"
proof (cases a)
  case (Socket k ev)
  show ?thesis
  proof (cases ev)
    case Ev_open
    then show ?thesis
      unfolding Socket by (simp add: dispatch_def onopen_def set_readyState_def)
  next
    case (Ev_message d)
    then show ?thesis
      unfolding Socket using serials_onmessage [of now s d] by (simp add: dispatch_def)
  next
    case Ev_close
    then show ?thesis
      unfolding Socket by (simp add: dispatch_def onclose_def set_readyState_def)
  next
    case Ev_error
    then show ?thesis
      unfolding Socket by (simp add: dispatch_def onerror_def)
  qed
next
  case Timeout
  then show ?thesis
    by (simp add: timeout_fires_def initWebSocket_def split: list.splits callback.splits)
next
  case (Type raw)
  then show ?thesis by simp
next
  case Send
  then show ?thesis
    by (simp add: sendMessage_cases createUserMessage_def)
next
  case (Click k)
  have "map msg_id (messages (click_header s k)) = map msg_id (messages s)"
    by (simp add: click_header_def toggleCollapse_def map_update_found)
  then have "map (\<lambda>m. serial (msg_id m)) (messages (click_header s k)) =
             map (\<lambda>m. serial (msg_id m)) (messages s)"
    by (rule serials_cong)
  moreover have "messageIdCounter (click_header s k) = messageIdCounter s"
    by (simp add: click_header_def toggleCollapse_def)
  ultimately show ?thesis
    unfolding Click by simp
next
  case Mount
  then show ?thesis
    by (simp add: initWebSocket_def)
qed

text \<open>
  On every page that the handlers reach from the first page, the messages carry the counter
  values 0, 1, 2, ... in this order, so no two messages have the same identifier.
\<close>

lemma serials_reachable:
  "map (\<lambda>m. serial (msg_id m)) (messages (foldl (perform now) initial as)) =
     [0..<messageIdCounter (foldl (perform now) initial as)]"
proof (induction as rule: rev_induct)
  case Nil
  show ?case by (simp add: initial_def)
next
  case (snoc a as)
  let ?s = "foldl (perform now) initial as"
  note p = serials_perform [of now ?s a]
  have "map (\<lambda>m. serial (msg_id m)) (messages (perform now ?s a)) =
        [0..<messageIdCounter ?s] @ [messageIdCounter ?s..<messageIdCounter (perform now ?s a)]"
    using p snoc.IH by simp
  also have "\<dots> = [0..<messageIdCounter (perform now ?s a)]"
    using p by (simp only: upt_join le0)
  finally show ?case by simp
qed

lemma ids_distinct_reachable:
  "distinct (map msg_id (messages (foldl (perform now) initial as)))"
proof -
  have "distinct (map (\<lambda>m. serial (msg_id m)) (messages (foldl (perform now) initial as)))"
    unfolding serials_reachable by simp
  then have "distinct (map serial (map msg_id (messages (foldl (perform now) initial as))))"
    by (simp add: comp_def)
  then show ?thesis
    by (rule distinct_map [THEN iffD1, THEN conjunct1])
qed

section \<open>The messages that have the property collapsed\<close>

lemma update_found_all:
  assumes "\<forall>x\<in>set xs. P x" and "\<And>x. P x \<Longrightarrow> P (u x)"
  shows "\<forall>x\<in>set (update_found p u xs). P x"
  using assms(1) by (induction xs) (simp_all add: assms(2))

lemma collapsed_store_result [simp]: "collapsed (store_result r m) = collapsed m"
  by (simp add: store_result_def Let_def)

lemma store_results_all:
  assumes "\<And>x r. P x \<Longrightarrow> P (store_result r x)"
  shows "\<forall>x\<in>set xs. P x \<Longrightarrow> \<forall>x\<in>set (store_results xs rs). P x"
proof (induction rs arbitrary: xs)
  case Nil
  then show ?case by (simp add: store_results_def)
next
  case (Cons r rs)
  have "\<forall>x\<in>set (update_found (answers r) (store_result r) xs). P x"
    using Cons.prems assms by (rule update_found_all)
  then show ?case
    unfolding store_results_Cons by (rule Cons.IH)
qed

lemma text_turn_flag: "\<forall>m\<in>set (text_turn ty now n x). collapsed m \<noteq> None"
  by (auto simp add: text_turn_def)

lemma tool_turns_flag: "\<forall>m\<in>set (tool_turns now n cs). collapsed m \<noteq> None"
  by (induction cs arbitrary: n) auto

text \<open>
  Every message other than a file message has the property \<^verbatim>\<open>collapsed\<close>: this holds of the
  messages that a frame adds, and storing a tool result keeps it.
\<close>

lemma flags_onmessage:
  fixes s :: session
  assumes "\<forall>m\<in>set (messages s). msg_type m \<noteq> File_download \<longrightarrow> collapsed m \<noteq> None"
  shows "\<forall>m\<in>set (messages (onmessage now s d)). msg_type m \<noteq> File_download \<longrightarrow> collapsed m \<noteq> None"
proof -
  define P where "P = (\<lambda>m::message. msg_type m \<noteq> File_download \<longrightarrow> collapsed m \<noteq> None)"
  have old: "\<forall>m\<in>set (messages s). P m"
    using assms unfolding P_def .
  have kept: "P (store_result r x)" if "P x" for r x
    using that unfolding P_def by simp
  have texts: "\<forall>m\<in>set (text_turn ty now k x). P m" for ty k x
    using text_turn_flag [of ty now k x] unfolding P_def by blast
  have tools: "\<forall>m\<in>set (tool_turns now k cs). P m" for k cs
    using tool_turns_flag [of now k cs] unfolding P_def by blast
  have "\<forall>m\<in>set (messages (onmessage now s d)). P m"
  proof (cases d)
    case (Invalid raw)
    show ?thesis
      unfolding Invalid onmessage_Invalid using old by simp
  next
    case (Valid data)
    show ?thesis
    proof (cases "returns_early data")
      case True
      show ?thesis
      proof (cases "f_type data = Some ''done''")
        case True
        show ?thesis
          unfolding Valid onmessage_done [OF True] using old by simp
      next
        case False
        then have f: "f_type data = Some ''file_download'' \<and> truthy (f_file_paths data)"
          using \<open>returns_early data\<close> by (simp add: returns_early_def)
        have "messages (onmessage now s (Valid data)) = messages s @
             [\<lparr>msg_id = mk_id ''file'' now (messageIdCounter s), msg_type = File_download,
               content = None, call_id = Undefined, function_name = Undefined,
               args = Undefined, result = Undefined, file_paths = f_file_paths data,
               is_error = Undefined, collapsed = None\<rparr>]"
          using f False by (simp add: onmessage_Valid)
        moreover have "P \<lparr>msg_id = mk_id ''file'' now (messageIdCounter s), msg_type = File_download,
               content = None, call_id = Undefined, function_name = Undefined,
               args = Undefined, result = Undefined, file_paths = f_file_paths data,
               is_error = Undefined, collapsed = None\<rparr>"
          unfolding P_def by simp
        ultimately show ?thesis
          unfolding Valid using old by simp
      qed
    next
      case False
      let ?n = "messageIdCounter s"
      let ?T = "text_turn Thought now ?n (f_thought data)"
      let ?TC = "tool_turns now (?n + length ?T) (requested data)"
      let ?A = "text_turn Assistant now (?n + length ?T + length ?TC) (f_content data)"
      have "\<forall>m\<in>set (messages s @ ?T @ ?TC). P m"
        using old texts [of Thought ?n "f_thought data"] tools [of "?n + length ?T" "requested data"]
        by (simp add: ball_Un)
      then have "\<forall>m\<in>set (store_results (messages s @ ?T @ ?TC) (resolved data)). P m"
        using kept by (rule store_results_all [rotated])
      then have "\<forall>m\<in>set (store_results (messages s @ ?T @ ?TC) (resolved data) @ ?A). P m"
        using texts [of Assistant "?n + length ?T + length ?TC" "f_content data"]
        by (simp add: ball_Un)
      then show ?thesis
        unfolding Valid onmessage_fields [OF False] by simp
    qed
  qed
  then show ?thesis
    unfolding P_def .
qed

lemma flags_toggleCollapse:
  assumes "\<forall>m\<in>set (messages s). msg_type m \<noteq> File_download \<longrightarrow> collapsed m \<noteq> None"
  shows "\<forall>m\<in>set (messages (toggleCollapse s i)). msg_type m \<noteq> File_download \<longrightarrow> collapsed m \<noteq> None"
proof -
  define P where "P = (\<lambda>m::message. msg_type m \<noteq> File_download \<longrightarrow> collapsed m \<noteq> None)"
  have old: "\<forall>m\<in>set (messages s). P m"
    using assms unfolding P_def .
  have kept: "P (x\<lparr>collapsed := Some (\<not> is_collapsed x)\<rparr>)" if "P x" for x
    unfolding P_def by simp
  have "\<forall>m\<in>set (update_found (\<lambda>m. msg_id m = i)
          (\<lambda>msg. msg\<lparr>collapsed := Some (\<not> is_collapsed msg)\<rparr>) (messages s)). P m"
    using old kept by (rule update_found_all)
  then show ?thesis
    unfolding P_def toggleCollapse_def by simp
qed

lemma flags_perform:
  assumes "\<forall>m\<in>set (messages s). msg_type m \<noteq> File_download \<longrightarrow> collapsed m \<noteq> None"
  shows "\<forall>m\<in>set (messages (perform now s a)). msg_type m \<noteq> File_download \<longrightarrow> collapsed m \<noteq> None"
proof (cases a)
  case Mount
  then show ?thesis
    using assms by (simp add: initWebSocket_def)
next
  case (Socket k ev)
  show ?thesis
  proof (cases ev)
    case Ev_open
    then show ?thesis
      unfolding Socket using assms by (simp add: dispatch_def onopen_def set_readyState_def)
  next
    case (Ev_message d)
    then show ?thesis
      unfolding Socket using flags_onmessage [OF assms, of now d] assms by (simp add: dispatch_def)
  next
    case Ev_close
    then show ?thesis
      unfolding Socket using assms by (simp add: dispatch_def onclose_def set_readyState_def)
  next
    case Ev_error
    then show ?thesis
      unfolding Socket using assms by (simp add: dispatch_def onerror_def)
  qed
next
  case Timeout
  then show ?thesis
    using assms by (simp add: timeout_fires_def initWebSocket_def split: list.splits callback.splits)
next
  case (Type raw)
  then show ?thesis using assms by simp
next
  case Send
  have u: "collapsed (fst (createUserMessage now s (userInput s))) \<noteq> None"
    by (simp add: createUserMessage_def)
  have "messages (snd (sendMessage now s)) = messages s \<or>
        messages (snd (sendMessage now s)) = messages s @ [fst (createUserMessage now s (userInput s))]"
    by (simp add: sendMessage_cases)
  then show ?thesis
    unfolding Send using assms u by (elim disjE) simp_all
next
  case (Click k)
  then show ?thesis
    using flags_toggleCollapse [OF assms] assms by (simp add: click_header_def)
qed

text \<open>
  On every page that the actions reach from the first page, every message other than a file
  message has the property \<^verbatim>\<open>collapsed\<close>, and so has every message with a header.
\<close>

lemma flags_reachable:
  "\<forall>m\<in>set (messages (foldl (perform now) initial as)).
     msg_type m \<noteq> File_download \<longrightarrow> collapsed m \<noteq> None"
proof (induction as rule: rev_induct)
  case Nil
  show ?case by (simp add: initial_def)
next
  case (snoc a as)
  show ?case
    using flags_perform [OF snoc.IH, where a = a] by simp
qed

section \<open>Collapsing and expanding a message\<close>

lemma toggleCollapse_at:
  assumes "distinct (map msg_id (messages s))" and "i < length (messages s)"
  shows "toggleCollapse s (msg_id (messages s ! i)) =
           s\<lparr>messages := (messages s)[i := (messages s ! i)
                 \<lparr>collapsed := Some (\<not> is_collapsed (messages s ! i))\<rparr>]\<rparr>"
proof -
  have "\<forall>j<i. msg_id (messages s ! j) \<noteq> msg_id (messages s ! i)"
    using distinct_first_occurrence [OF assms] .
  then show ?thesis
    unfolding toggleCollapse_def
    using update_found_at [of i "messages s" "\<lambda>m. msg_id m = msg_id (messages s ! i)"] assms(2)
    by simp
qed

lemma toggleCollapse_absent:
  assumes "msgId \<notin> msg_id ` set (messages s)"
  shows "toggleCollapse s msgId = s"
proof -
  have "\<forall>x\<in>set (messages s). \<not> msg_id x = msgId"
    using assms by auto
  then show ?thesis
    unfolding toggleCollapse_def by (simp add: update_found_none)
qed

text \<open>
  Two calls for the same message leave the truth value of its \<^verbatim>\<open>collapsed\<close> and everything
  else as they were.  A message that had no \<^verbatim>\<open>collapsed\<close> property has the property with the
  value \<^verbatim>\<open>false\<close> afterwards.
\<close>

lemma toggleCollapse_twice:
  assumes "distinct (map msg_id (messages s))" and "i < length (messages s)"
  shows "toggleCollapse (toggleCollapse s (msg_id (messages s ! i))) (msg_id (messages s ! i)) =
           s\<lparr>messages := (messages s)[i := (messages s ! i)
                 \<lparr>collapsed := Some (is_collapsed (messages s ! i))\<rparr>]\<rparr>"
proof -
  let ?m = "messages s ! i"
  let ?m' = "?m\<lparr>collapsed := Some (\<not> is_collapsed ?m)\<rparr>"
  let ?s' = "s\<lparr>messages := (messages s)[i := ?m']\<rparr>"
  have one: "toggleCollapse s (msg_id ?m) = ?s'"
    by (rule toggleCollapse_at [OF assms])
  have ids: "map msg_id (messages ?s') = map msg_id (messages s)"
    using assms(2) by (simp add: map_update list_update_same_conv)
  have d': "distinct (map msg_id (messages ?s'))"
    unfolding ids by (rule assms(1))
  have i': "i < length (messages ?s')"
    using assms(2) by simp
  have at: "messages ?s' ! i = ?m'"
    using assms(2) by simp
  have "toggleCollapse ?s' (msg_id (messages ?s' ! i)) =
          ?s'\<lparr>messages := (messages ?s')[i := (messages ?s' ! i)
                 \<lparr>collapsed := Some (\<not> is_collapsed (messages ?s' ! i))\<rparr>]\<rparr>"
    by (rule toggleCollapse_at [OF d' i'])
  then have "toggleCollapse ?s' (msg_id ?m) =
          s\<lparr>messages := (messages s)[i := ?m\<lparr>collapsed := Some (is_collapsed ?m)\<rparr>]\<rparr>"
    unfolding at by (simp add: is_collapsed_def)
  then show ?thesis
    unfolding one .
qed

lemma visited_eval: "messages visited =
  [\<lparr>msg_id = ''msg_1700000000000_0'', msg_type = User, content = Some ''q'',
       call_id = Undefined, function_name = Undefined, args = Undefined, result = Undefined,
       file_paths = Undefined, is_error = Undefined, collapsed = Some False\<rparr>,
   \<lparr>msg_id = ''msg_1700000000001_1'', msg_type = Thought, content = Some ''plan'',
       call_id = Undefined, function_name = Undefined, args = Undefined, result = Undefined,
       file_paths = Undefined, is_error = Undefined, collapsed = Some False\<rparr>,
   \<lparr>msg_id = ''msg_1700000000002_2'', msg_type = Assistant, content = Some ''answer'',
       call_id = Undefined, function_name = Undefined, args = Undefined, result = Undefined,
       file_paths = Undefined, is_error = Undefined, collapsed = Some False\<rparr>,
   \<lparr>msg_id = ''file_1700000000003_3'', msg_type = File_download, content = None,
       call_id = Undefined, function_name = Undefined, args = Undefined, result = Undefined,
       file_paths = JArr [JObj [(''path'', JStr ''a.bkp''), (''type'', JStr ''aspen'')]],
       is_error = Undefined, collapsed = None\<rparr>]"
  by (simp add: visited_def visit_def file_frame_def dispatch_def set_readyState_def
        initWebSocket_def onopen_def sendMessage_cases eval_defs)

text \<open>
  C9.  On every page that the actions reach from the first page, \<^verbatim>\<open>toggleCollapse(id)\<close> for the
  id of the message at position \<open>i\<close> replaces that message's \<^verbatim>\<open>collapsed\<close> by its negation and
  leaves every other field of every message, the number and the order of the messages and
  the rest of the page as they were; for an id that no message has it changes nothing;
  applied twice for a message other than a file message it restores the page; and so do two
  clicks on the header of any message.  The headers of thoughts, tool requests and
  assistant messages are the only callers of \<^verbatim>\<open>toggleCollapse\<close>, so the page never passes it the
  id of a file message, the one kind of message that is created without \<^verbatim>\<open>collapsed\<close>; what
  two direct calls would do to it is in \<open>toggleCollapse_twice\<close>.
\<close>

theorem toggleCollapse_flips_one_flag:
  assumes "s = foldl (perform now) initial as"
  shows "(i < length (messages s) \<longrightarrow>
            toggleCollapse s (msg_id (messages s ! i)) =
              s\<lparr>messages := (messages s)[i := (messages s ! i)
                    \<lparr>collapsed := Some (\<not> is_collapsed (messages s ! i))\<rparr>]\<rparr>)
       \<and> (msgId \<notin> msg_id ` set (messages s) \<longrightarrow> toggleCollapse s msgId = s)
       \<and> (i < length (messages s) \<and> msg_type (messages s ! i) \<noteq> File_download \<longrightarrow>
            toggleCollapse (toggleCollapse s (msg_id (messages s ! i))) (msg_id (messages s ! i)) = s)
       \<and> click_header (click_header s i) i = s"
proof (intro conjI impI)
  have d: "distinct (map msg_id (messages s))"
    unfolding assms by (rule ids_distinct_reachable)
  have flags: "\<forall>m\<in>set (messages s). msg_type m \<noteq> File_download \<longrightarrow> collapsed m \<noteq> None"
    unfolding assms by (rule flags_reachable)
  have twice: "toggleCollapse (toggleCollapse s (msg_id (messages s ! i))) (msg_id (messages s ! i)) = s"
    if i: "i < length (messages s)" and t: "msg_type (messages s ! i) \<noteq> File_download"
  proof -
    have "messages s ! i \<in> set (messages s)"
      using i by simp
    then have "collapsed (messages s ! i) \<noteq> None"
      using flags t by blast
    then obtain b where b: "collapsed (messages s ! i) = Some b"
      by auto
    have same: "(messages s ! i)\<lparr>collapsed := Some (is_collapsed (messages s ! i))\<rparr> = messages s ! i"
      by (simp add: is_collapsed_def b)
    show ?thesis
      unfolding toggleCollapse_twice [OF d i] same by simp
  qed
  {
    assume "i < length (messages s)"
    then show "toggleCollapse s (msg_id (messages s ! i)) =
        s\<lparr>messages := (messages s)[i := (messages s ! i)
              \<lparr>collapsed := Some (\<not> is_collapsed (messages s ! i))\<rparr>]\<rparr>"
      by (rule toggleCollapse_at [OF d])
  next
    assume "msgId \<notin> msg_id ` set (messages s)"
    then show "toggleCollapse s msgId = s"
      by (rule toggleCollapse_absent)
  next
    assume "i < length (messages s) \<and> msg_type (messages s ! i) \<noteq> File_download"
    then show "toggleCollapse (toggleCollapse s (msg_id (messages s ! i))) (msg_id (messages s ! i)) = s"
      using twice by blast
  next
    show "click_header (click_header s i) i = s"
    proof (cases "i < length (messages s) \<and> has_header (messages s ! i)")
      case False
      then have c: "click_header s i = s"
        unfolding click_header_def by (rule if_not_P)
      show ?thesis
        unfolding c c ..
    next
      case True
      then have i: "i < length (messages s)" and h: "has_header (messages s ! i)"
        by simp_all
      let ?s' = "toggleCollapse s (msg_id (messages s ! i))"
      have t: "msg_type (messages s ! i) \<noteq> File_download"
        using h by (auto simp add: has_header_def)
      have one: "click_header s i = ?s'"
        using True by (simp add: click_header_def)
      have at: "?s' = s\<lparr>messages := (messages s)[i := (messages s ! i)
              \<lparr>collapsed := Some (\<not> is_collapsed (messages s ! i))\<rparr>]\<rparr>"
        by (rule toggleCollapse_at [OF d i])
      have len: "i < length (messages ?s')"
        unfolding at using i by simp
      have nth: "messages ?s' ! i = (messages s ! i)\<lparr>collapsed := Some (\<not> is_collapsed (messages s ! i))\<rparr>"
        unfolding at using i by simp
      have h': "has_header (messages ?s' ! i)"
        unfolding nth using h by (simp add: has_header_def)
      have id': "msg_id (messages ?s' ! i) = msg_id (messages s ! i)"
        unfolding nth by simp
      have "click_header ?s' i = toggleCollapse ?s' (msg_id (messages s ! i))"
        using len h' id' by (simp add: click_header_def)
      also have "\<dots> = s"
        by (rule twice [OF i t])
      finally show ?thesis
        unfolding one .
    qed
  }
qed

text \<open>
  The theorem at the page after the visit, whose messages are the question, a thought, the
  reply and a file: for the thought, for an id that no message has, and for clicks on the
  thought and on the file.
\<close>

theorem toggleCollapse_flips_one_flag_witness:
  "visited = foldl (perform demo_now) initial visit
   \<and> 1 < length (messages visited)
   \<and> toggleCollapse visited (msg_id (messages visited ! 1)) =
       visited\<lparr>messages := (messages visited)[1 := (messages visited ! 1)\<lparr>collapsed := Some True\<rparr>]\<rparr>
   \<and> ''msg_0_7'' \<notin> msg_id ` set (messages visited)
   \<and> toggleCollapse visited ''msg_0_7'' = visited
   \<and> msg_type (messages visited ! 1) \<noteq> File_download
   \<and> toggleCollapse (toggleCollapse visited (msg_id (messages visited ! 1)))
         (msg_id (messages visited ! 1)) = visited
   \<and> click_header (click_header visited 1) 1 = visited
   \<and> msg_type (messages visited ! 3) = File_download
   \<and> click_header (click_header visited 3) 3 = visited"
proof -
  have r: "visited = foldl (perform demo_now) initial visit"
    by (rule visited_def)
  have facts: "1 < length (messages visited)" "''msg_0_7'' \<notin> msg_id ` set (messages visited)"
    "msg_type (messages visited ! 1) \<noteq> File_download" "\<not> is_collapsed (messages visited ! 1)"
    "msg_type (messages visited ! 3) = File_download"
    by (simp_all add: visited_eval is_collapsed_def)
  note t = toggleCollapse_flips_one_flag [OF r, of 1 "''msg_0_7''"]
  note u = toggleCollapse_flips_one_flag [OF r, of 3 "''msg_0_7''"]
  have one: "toggleCollapse visited (msg_id (messages visited ! 1)) =
       visited\<lparr>messages := (messages visited)[1 := (messages visited ! 1)\<lparr>collapsed := Some True\<rparr>]\<rparr>"
    using t facts(1,4) by simp
  have absent: "toggleCollapse visited ''msg_0_7'' = visited"
    using t facts(2) by blast
  have twice: "toggleCollapse (toggleCollapse visited (msg_id (messages visited ! 1)))
         (msg_id (messages visited ! 1)) = visited"
    using t facts(1,3) by blast
  have click: "click_header (click_header visited 1) 1 = visited"
    using t by blast
  have on_file: "click_header (click_header visited 3) 3 = visited"
    using u by blast
  show ?thesis
    using r facts(1,2,3,5) one absent twice click on_file by (intro conjI)
qed

end
